theory Spec2Isabelle
  imports Complex_Main
begin

section \<open>Python values, exceptions and the try/except discipline\<close>

text \<open>
  A Python \<open>str\<close> is a sequence of Unicode code points and a \<open>bytes\<close> object a
  sequence of octets; both are lists of naturals here.  A string literal of the source
  is written \<open>lit ''...''\<close>.
\<close>

type_synonym str = "nat list"
type_synonym bytes = "nat list"

definition lit :: "string \<Rightarrow> str" where
  "lit cs = map of_char cs"

text \<open>
  Exceptions are values.  \<open>HTTPException\<close> carries its status code (the detail text is
  a message for humans and is left out); \<open>LibraryError\<close> stands for any exception an
  external library (pybit, requests, SQLAlchemy) raises, tagged by a number.
\<close>

datatype exn =
    HTTPException nat
  | UnicodeEncodeError
  | UnicodeDecodeError
  | InvalidToken
  | AttributeError
  | IndexError
  | KeyError
  | TypeError
  | ValueError
  | OverflowError
  | IntegrityError
  | LibraryError nat

definition bind :: "exn + 'a \<Rightarrow> ('a \<Rightarrow> exn + 'b) \<Rightarrow> exn + 'b" where
  "bind m f = (case m of Inl e \<Rightarrow> Inl e | Inr v \<Rightarrow> f v)"

definition try_except :: "exn + 'a \<Rightarrow> (exn \<Rightarrow> exn + 'a) \<Rightarrow> exn + 'a" where
  "try_except m h = (case m of Inl e \<Rightarrow> h e | Inr v \<Rightarrow> Inr v)"

text \<open>
  The JSON-like values a venue call returns.  A Python float is read as the real it
  denotes.
\<close>

datatype pyval =
    PNone
  | PBool bool
  | PInt int
  | PFloat real
  | PStr str
  | PList "pyval list"
  | PDict "(str \<times> pyval) list"

text \<open>Truth value of an object in a condition (\<open>if result\<close>).\<close>

fun truthy :: "pyval \<Rightarrow> bool" where
  "truthy PNone = False"
| "truthy (PBool b) = b"
| "truthy (PInt i) = (i \<noteq> 0)"
| "truthy (PFloat x) = (x \<noteq> 0)"
| "truthy (PStr s) = (s \<noteq> [])"
| "truthy (PList xs) = (xs \<noteq> [])"
| "truthy (PDict kvs) = (kvs \<noteq> [])"

text \<open>The comparison \<open>v == 0\<close>; \<open>False == 0\<close> holds in Python.\<close>

fun eq_zero :: "pyval \<Rightarrow> bool" where
  "eq_zero (PBool b) = (\<not> b)"
| "eq_zero (PInt i) = (i = 0)"
| "eq_zero (PFloat x) = (x = 0)"
| "eq_zero _ = False"

text \<open>\<open>obj.get(key, default)\<close>: only a dict has the method.\<close>

fun dict_get :: "pyval \<Rightarrow> str \<Rightarrow> pyval \<Rightarrow> exn + pyval" where
  "dict_get (PDict kvs) k d = Inr (case map_of kvs k of Some v \<Rightarrow> v | None \<Rightarrow> d)"
| "dict_get _ k d = Inl AttributeError"

text \<open>\<open>obj[0]\<close>.\<close>

fun index0 :: "pyval \<Rightarrow> exn + pyval" where
  "index0 (PList []) = Inl IndexError"
| "index0 (PList (x # xs)) = Inr x"
| "index0 (PStr []) = Inl IndexError"
| "index0 (PStr (c # cs)) = Inr (PStr [c])"
| "index0 (PDict kvs) = Inl KeyError"
| "index0 _ = Inl TypeError"

text \<open>
  The builtin \<open>float(v)\<close>.  Which double a string or an integer converts to is
  Python's business and is taken as two parameters: \<open>parse\<close> for strings (\<open>None\<close>: the
  string is no number, \<open>ValueError\<close>) and \<open>round_int\<close> for integers (\<open>None\<close>: the
  integer is too large for a double, \<open>OverflowError\<close>).
\<close>

fun py_float :: "(str \<Rightarrow> real option) \<Rightarrow> (int \<Rightarrow> real option) \<Rightarrow> pyval \<Rightarrow> exn + real" where
  "py_float parse round_int (PBool b) = Inr (if b then 1 else 0)"
| "py_float parse round_int (PInt i) =
     (case round_int i of None \<Rightarrow> Inl OverflowError | Some x \<Rightarrow> Inr x)"
| "py_float parse round_int (PFloat x) = Inr x"
| "py_float parse round_int (PStr s) =
     (case parse s of None \<Rightarrow> Inl ValueError | Some x \<Rightarrow> Inr x)"
| "py_float parse round_int _ = Inl TypeError"

section \<open>bybit\_service.py: the client wrapper and the process-wide session slot\<close>

text \<open>
  The venue as one call sees it: what the pybit \<open>HTTP\<close> constructor and the three
  endpoints answer to a client holding the given key, secret and network mode.
  \<open>http_init\<close> is \<open>None\<close> when the constructor returns and \<open>Some e\<close> when it raises.
  The record also carries the two conversions \<open>float\<close> applies to the answers.
\<close>

record venue =
  http_init :: "str \<Rightarrow> str \<Rightarrow> bool \<Rightarrow> exn option"
  get_wallet_balance :: "str \<Rightarrow> str \<Rightarrow> bool \<Rightarrow> exn + pyval"
  get_open_orders :: "str \<Rightarrow> str \<Rightarrow> bool \<Rightarrow> exn + pyval"
  client_get_positions :: "str \<Rightarrow> str \<Rightarrow> bool \<Rightarrow> exn + pyval"
  float_of_str :: "str \<Rightarrow> real option"
  float_of_int :: "int \<Rightarrow> real option"

text \<open>
  A \<open>BybitClientWrapper\<close> object.  \<open>wid\<close> is the identity of the object: the number
  of wrappers built before it.
\<close>

record BybitClientWrapper =
  api_key :: str
  api_secret :: str
  testnet :: bool
  wid :: nat

definition BybitClientWrapper_init ::
  "venue \<Rightarrow> str \<Rightarrow> str \<Rightarrow> bool \<Rightarrow> nat \<Rightarrow> exn + BybitClientWrapper" where
  "BybitClientWrapper_init V k s t n =
     (case http_init V k s t of
        Some e \<Rightarrow> Inl e
      | None \<Rightarrow> Inr \<lparr>api_key = k, api_secret = s, testnet = t, wid = n\<rparr>)"

text \<open>\<open>result and result.get('retCode') == 0\<close>\<close>

definition response_ok :: "pyval \<Rightarrow> exn + bool" where
  "response_ok result =
     (if truthy result
      then bind (dict_get result (lit ''retCode'') PNone) (\<lambda>rc. Inr (eq_zero rc))
      else Inr False)"

definition validate_credentials :: "venue \<Rightarrow> BybitClientWrapper \<Rightarrow> exn + bool" where
  "validate_credentials V w =
     try_except
       (bind (get_wallet_balance V (api_key w) (api_secret w) (testnet w)) (\<lambda>result.
        bind (response_ok result) (\<lambda>ok.
        if ok then Inr True else Inr False)))
       (\<lambda>e. Inr False)"

record account_info =
  total_wallet_balance :: pyval
  total_equity :: pyval
  available_balance :: pyval
  total_unrealised_loss :: pyval

definition zero_account_info :: account_info where
  "zero_account_info =
     \<lparr>total_wallet_balance = PInt 0, total_equity = PInt 0,
      available_balance = PInt 0, total_unrealised_loss = PInt 0\<rparr>"

definition float_field :: "venue \<Rightarrow> pyval \<Rightarrow> string \<Rightarrow> exn + pyval" where
  "float_field V d name =
     bind (dict_get d (lit name) (PInt 0)) (\<lambda>v.
     bind (py_float (float_of_str V) (float_of_int V) v) (\<lambda>x. Inr (PFloat x)))"

definition get_account_info :: "venue \<Rightarrow> BybitClientWrapper \<Rightarrow> exn + account_info" where
  "get_account_info V w =
     try_except
       (bind (get_wallet_balance V (api_key w) (api_secret w) (testnet w)) (\<lambda>result.
        bind (response_ok result) (\<lambda>ok.
        if ok then
          bind (dict_get result (lit ''result'') (PDict [])) (\<lambda>data.
          bind (dict_get data (lit ''list'') (PList [PDict []])) (\<lambda>lst.
          bind (index0 lst) (\<lambda>list_data.
          bind (float_field V list_data ''totalWalletBalance'') (\<lambda>a.
          bind (float_field V list_data ''totalEquity'') (\<lambda>b.
          bind (float_field V list_data ''totalAvailableBalance'') (\<lambda>c.
          bind (float_field V list_data ''totalUnrealisedLoss'') (\<lambda>d.
          Inr \<lparr>total_wallet_balance = a, total_equity = b,
               available_balance = c, total_unrealised_loss = d\<rparr>)))))))
        else Inr zero_account_info)))
       (\<lambda>e. Inr zero_account_info)"

text \<open>
  The wrapper's \<open>get_positions\<close>.  As in the source, the endpoint it calls is
  \<open>get_open_orders\<close> and the list is returned as it came.
\<close>

definition get_positions :: "venue \<Rightarrow> BybitClientWrapper \<Rightarrow> exn + pyval" where
  "get_positions V w =
     try_except
       (bind (get_open_orders V (api_key w) (api_secret w) (testnet w)) (\<lambda>result.
        bind (response_ok result) (\<lambda>ok.
        if ok then
          bind (dict_get result (lit ''result'') (PDict [])) (\<lambda>data.
          dict_get data (lit ''list'') (PList []))
        else Inr (PList []))))
       (\<lambda>e. Inr (PList []))"

text \<open>
  The module globals \<open>_bybit_client\<close> and \<open>_testnet_mode\<close>, and the count of wrapper
  objects built so far, from which a new wrapper takes its identity.
\<close>

record service =
  bybit_client :: "BybitClientWrapper option"
  testnet_mode :: bool
  allocated :: nat

definition service_init :: service where
  "service_init = \<lparr>bybit_client = None, testnet_mode = False, allocated = 0\<rparr>"

text \<open>
  Lines 136 to 142 of \<open>get_bybit_client\<close>: build the wrapper and store it together
  with its network mode; when the constructor raises, the exception is raised again and
  neither global has been assigned.
\<close>

definition construct ::
  "venue \<Rightarrow> str \<Rightarrow> str \<Rightarrow> bool \<Rightarrow> service \<Rightarrow> (exn + BybitClientWrapper) \<times> service" where
  "construct V k s t g =
     (case BybitClientWrapper_init V k s t (allocated g) of
        Inl e \<Rightarrow> (Inl e, g)
      | Inr w \<Rightarrow> (Inr w, g\<lparr>bybit_client := Some w, testnet_mode := t,
                            allocated := Suc (allocated g)\<rparr>))"

definition get_bybit_client ::
  "venue \<Rightarrow> str \<Rightarrow> str \<Rightarrow> bool \<Rightarrow> service \<Rightarrow> (exn + BybitClientWrapper) \<times> service" where
  "get_bybit_client V k s t g =
     (case bybit_client g of
        None \<Rightarrow> construct V k s t g
      | Some c \<Rightarrow>
          if testnet_mode g \<noteq> t \<or> api_key c \<noteq> k
          then construct V k s t g
          else (Inr c, g))"

definition reset_bybit_client :: "service \<Rightarrow> service" where
  "reset_bybit_client g = g\<lparr>bybit_client := None\<rparr>"

section \<open>utils/crypto.py: the secret cipher\<close>

text \<open>
  \<open>str.encode()\<close> and \<open>bytes.decode()\<close> with their default codec, strict UTF-8.
  A lone surrogate has no encoding (\<open>UnicodeEncodeError\<close>); an overlong form, an
  encoded surrogate, a stray continuation octet or a truncated sequence does not decode
  (\<open>UnicodeDecodeError\<close>).
\<close>

definition utf8_char :: "nat \<Rightarrow> exn + bytes" where
  "utf8_char c =
     (if c < 128 then Inr [c]
      else if c < 2048 then Inr [192 + c div 64, 128 + c mod 64]
      else if c < 65536 then
        (if 55296 \<le> c \<and> c \<le> 57343 then Inl UnicodeEncodeError
         else Inr [224 + c div 4096, 128 + c div 64 mod 64, 128 + c mod 64])
      else if c < 1114112 then
        Inr [240 + c div 262144, 128 + c div 4096 mod 64, 128 + c div 64 mod 64,
             128 + c mod 64]
      else Inl UnicodeEncodeError)"

fun str_encode :: "str \<Rightarrow> exn + bytes" where
  "str_encode [] = Inr []"
| "str_encode (c # cs) =
     bind (utf8_char c) (\<lambda>b. bind (str_encode cs) (\<lambda>bs. Inr (b @ bs)))"

definition continuation :: "nat \<Rightarrow> bool" where
  "continuation b = (128 \<le> b \<and> b < 192)"

fun bytes_decode :: "bytes \<Rightarrow> exn + str" where
  "bytes_decode [] = Inr []"
| "bytes_decode (b0 # bs) =
     (if b0 < 128 then bind (bytes_decode bs) (\<lambda>cs. Inr (b0 # cs))
      else if 194 \<le> b0 \<and> b0 < 224 then
        (case bs of
           b1 # r \<Rightarrow>
             if continuation b1
             then bind (bytes_decode r) (\<lambda>cs. Inr (((b0 - 192) * 64 + (b1 - 128)) # cs))
             else Inl UnicodeDecodeError
         | _ \<Rightarrow> Inl UnicodeDecodeError)
      else if 224 \<le> b0 \<and> b0 < 240 then
        (case bs of
           b1 # b2 # r \<Rightarrow>
             if continuation b1 \<and> continuation b2
                \<and> 2048 \<le> (b0 - 224) * 4096 + (b1 - 128) * 64 + (b2 - 128)
                \<and> \<not> (55296 \<le> (b0 - 224) * 4096 + (b1 - 128) * 64 + (b2 - 128)
                       \<and> (b0 - 224) * 4096 + (b1 - 128) * 64 + (b2 - 128) \<le> 57343)
             then bind (bytes_decode r)
                    (\<lambda>cs. Inr (((b0 - 224) * 4096 + (b1 - 128) * 64 + (b2 - 128)) # cs))
             else Inl UnicodeDecodeError
         | _ \<Rightarrow> Inl UnicodeDecodeError)
      else if 240 \<le> b0 \<and> b0 < 245 then
        (case bs of
           b1 # b2 # b3 # r \<Rightarrow>
             if continuation b1 \<and> continuation b2 \<and> continuation b3
                \<and> 65536 \<le> (b0 - 240) * 262144 + (b1 - 128) * 4096 + (b2 - 128) * 64 + (b3 - 128)
                \<and> (b0 - 240) * 262144 + (b1 - 128) * 4096 + (b2 - 128) * 64 + (b3 - 128) < 1114112
             then bind (bytes_decode r)
                    (\<lambda>cs. Inr (((b0 - 240) * 262144 + (b1 - 128) * 4096 + (b2 - 128) * 64
                                 + (b3 - 128)) # cs))
             else Inl UnicodeDecodeError
         | _ \<Rightarrow> Inl UnicodeDecodeError)
      else Inl UnicodeDecodeError)"

text \<open>
  The \<open>Fernet\<close> object of the \<open>cryptography\<close> library, built from one key.  The library
  is not part of the repository: its two operations are parameters.  \<open>f_encrypt\<close> takes
  the entropy of the call (the clock reading and the initialisation vector the library
  draws) as its first argument; \<open>f_decrypt\<close> raises \<open>InvalidToken\<close> on a token it does
  not accept.
\<close>

record Fernet =
  f_encrypt :: "nat \<Rightarrow> bytes \<Rightarrow> bytes"
  f_decrypt :: "bytes \<Rightarrow> exn + bytes"

record EncryptionManager =
  cipher :: Fernet

definition encrypt :: "EncryptionManager \<Rightarrow> nat \<Rightarrow> str \<Rightarrow> exn + str" where
  "encrypt M n data_in =
     bind (str_encode data_in) (\<lambda>b. bytes_decode (f_encrypt (cipher M) n b))"

definition decrypt :: "EncryptionManager \<Rightarrow> str \<Rightarrow> exn + str" where
  "decrypt M encrypted_data =
     try_except
       (bind (str_encode encrypted_data) (\<lambda>b.
        bind (f_decrypt (cipher M) b) bytes_decode))
       (\<lambda>e. Inl e)"

text \<open>
  What the library promises of a \<open>Fernet\<close> object, as far as the claims need it:
  decryption undoes encryption of any octet string, and a token is URL-safe base64,
  hence ASCII.
\<close>

definition octets :: "bytes \<Rightarrow> bool" where
  "octets b = (\<forall>x \<in> set b. x < 256)"

definition ascii :: "bytes \<Rightarrow> bool" where
  "ascii b = (\<forall>x \<in> set b. x < 128)"

definition fernet_contract :: "Fernet \<Rightarrow> bool" where
  "fernet_contract F =
     (\<forall>n b. octets b \<longrightarrow> ascii (f_encrypt F n b) \<and> f_decrypt F (f_encrypt F n b) = Inr b)"

text \<open>The strings that have an encoding: code points that are Unicode scalar values.\<close>

definition encodable :: "str \<Rightarrow> bool" where
  "encodable s = (\<forall>c \<in> set s. c < 1114112 \<and> \<not> (55296 \<le> c \<and> c \<le> 57343))"

text \<open>
  A stand-in cipher for concrete runs, in the place a test would put a fake: a token
  is an octet naming the key followed by two letters per octet of the plaintext; the
  entropy is not used.
\<close>

fun fake_tokenise :: "bytes \<Rightarrow> bytes" where
  "fake_tokenise [] = []"
| "fake_tokenise (x # xs) = (65 + x div 16) # (65 + x mod 16) # fake_tokenise xs"

fun fake_parse :: "bytes \<Rightarrow> exn + bytes" where
  "fake_parse [] = Inr []"
| "fake_parse [h] = Inl InvalidToken"
| "fake_parse (h # l # r) =
     (if 65 \<le> h \<and> h < 81 \<and> 65 \<le> l \<and> l < 81
      then bind (fake_parse r) (\<lambda>bs. Inr (((h - 65) * 16 + (l - 65)) # bs))
      else Inl InvalidToken)"

definition fake_fernet :: "nat \<Rightarrow> Fernet" where
  "fake_fernet key =
     \<lparr>f_encrypt = (\<lambda>n b. (97 + key mod 26) # fake_tokenise b),
      f_decrypt = (\<lambda>t. case t of
                          [] \<Rightarrow> Inl InvalidToken
                        | tag # body \<Rightarrow>
                            if tag = 97 + key mod 26 then fake_parse body
                            else Inl InvalidToken)\<rparr>"

section \<open>models.py and the database session\<close>

text \<open>
  A row of table \<open>exchange_api\<close>, column by column; \<open>row_id\<close> is the primary key
  \<open>id\<close>, \<open>row_testnet\<close> the column \<open>testnet\<close>.  Times are clock readings.
\<close>

record ExchangeAPI =
  row_id :: nat
  exchange :: str
  api_key_encrypted :: str
  api_secret_encrypted :: str
  passphrase_encrypted :: "str option"
  row_testnet :: bool
  is_connected :: bool
  last_connection_check :: "nat option"
  connection_error :: "str option"
  total_positions :: int
  closed_positions :: int
  failed_closures :: int
  created_at :: nat
  updated_at :: nat

datatype EventType =
    POSITION_OPENED
  | POSITION_CLOSED
  | POSITION_UPDATED
  | TP_SET
  | TP_REMOVED
  | AUTO_CLOSE_TRIGGERED
  | ERROR_CLOSE_FAILED
  | ERROR_API
  | API_KEY_ADDED
  | SETTINGS_CHANGED
  | CONNECTION_LOST
  | CONNECTION_RESTORED
  | INFO

record Event =
  event_id :: nat
  exchange_id :: nat
  position_id :: "nat option"
  event_type :: EventType
  title :: str
  description :: "str option"
  event_data :: "str option"
  severity :: str
  event_created_at :: nat

text \<open>
  The two tables the claims speak of.  Tables \<open>positions\<close>, \<open>trades\<close> and
  \<open>closing_logic\<close> hang off \<open>exchange_api\<close> by the same cascade as \<open>events\<close> and
  no handler below reads them.
\<close>

record database =
  exchange_api :: "ExchangeAPI list"
  events :: "Event list"

definition database_init :: database where
  "database_init = \<lparr>exchange_api = [], events = []\<rparr>"

text \<open>\<open>db.query(ExchangeAPI).filter(ExchangeAPI.exchange == name).first()\<close>\<close>

definition query_first :: "database \<Rightarrow> str \<Rightarrow> ExchangeAPI option" where
  "query_first d name = find (\<lambda>r. exchange r = name) (exchange_api d)"

text \<open>
  The DELETE that \<open>db.delete(row)\<close> leads to: the row goes, and by
  \<open>cascade="all, delete-orphan"\<close> on the relationship \<open>events\<close> so do the events that
  point to it.
\<close>

definition db_delete :: "database \<Rightarrow> ExchangeAPI \<Rightarrow> database" where
  "db_delete d row =
     d\<lparr>exchange_api := filter (\<lambda>r. row_id r \<noteq> row_id row) (exchange_api d),
       events := filter (\<lambda>e. exchange_id e \<noteq> row_id row) (events d)\<rparr>"

text \<open>
  The INSERT that \<open>db.add(row)\<close> leads to: the store assigns the primary key, one above
  the largest in the table, and refuses a second row with the same \<open>exchange\<close>
  (\<open>unique=True\<close>) by \<open>IntegrityError\<close>.
\<close>

definition fresh_id :: "ExchangeAPI list \<Rightarrow> nat" where
  "fresh_id rows = Suc (fold max (map row_id rows) 0)"

definition db_add :: "database \<Rightarrow> ExchangeAPI \<Rightarrow> exn + (ExchangeAPI \<times> database)" where
  "db_add d row =
     (if \<exists>r \<in> set (exchange_api d). exchange r = exchange row then Inl IntegrityError
      else Inr (row\<lparr>row_id := fresh_id (exchange_api d)\<rparr>,
                d\<lparr>exchange_api := exchange_api d @ [row\<lparr>row_id := fresh_id (exchange_api d)\<rparr>]\<rparr>))"

text \<open>
  \<open>db.commit()\<close> with one row marked for deletion, or none, and one row added.  The
  session is made with \<open>autoflush=False\<close>, so \<open>db.delete\<close> and \<open>db.add\<close> only mark the
  rows and nothing is written before the commit; the flush of the commit then writes the
  INSERT before the DELETE.  When the INSERT is refused the exception leaves the commit
  and the store is as it was.
\<close>

definition db_commit ::
  "database \<Rightarrow> ExchangeAPI option \<Rightarrow> ExchangeAPI \<Rightarrow> exn + (ExchangeAPI \<times> database)" where
  "db_commit d deleted added =
     (case db_add d added of
        Inl e \<Rightarrow> Inl e
      | Inr (row, d1) \<Rightarrow>
          Inr (row, case deleted of Some old \<Rightarrow> db_delete d1 old | None \<Rightarrow> d1))"

section \<open>api\_keys.py: the handlers\<close>

text \<open>\<open>AddKeyRequest\<close> and \<open>TestKeyRequest\<close> have the same four fields.\<close>

record KeyRequest =
  req_exchange :: str
  req_api_key :: str
  req_api_secret :: str
  req_testnet :: bool

text \<open>
  What one request finds outside the process: the venue, the process-wide encryption
  manager with the entropy of its two \<open>encrypt\<close> calls, and the clock.
\<close>

record env =
  the_venue :: venue
  manager :: EncryptionManager
  entropy_key :: nat
  entropy_secret :: nat
  utcnow :: nat

record system =
  db :: database
  svc :: service

definition system_init :: system where
  "system_init = \<lparr>db = database_init, svc = service_init\<rparr>"

text \<open>
  \<open>str.lower()\<close> on the letters A to Z.  The only use of the result is the comparison
  with \<open>"bybit"\<close>, which no other character lowers into.
\<close>

definition lower :: "str \<Rightarrow> str" where
  "lower s = map (\<lambda>c. if 65 \<le> c \<and> c \<le> 90 then c + 32 else c) s"

record add_response =
  add_status :: str
  add_exchange :: str
  add_testnet :: bool
  add_exchange_id :: nat

text \<open>
  Lines 101 to 114 of \<open>add_api_keys\<close>: obtain the session and validate.  Whatever is
  raised inside, the \<open>HTTPException\<close> of the failed validation included, leaves as
  \<open>HTTPException(401)\<close>; only the failed validation resets the session.
\<close>

definition check_credentials :: "venue \<Rightarrow> KeyRequest \<Rightarrow> service \<Rightarrow> (exn + unit) \<times> service" where
  "check_credentials V req g =
     (case get_bybit_client V (req_api_key req) (req_api_secret req) (req_testnet req) g of
        (Inl e, g1) \<Rightarrow> (Inl (HTTPException 401), g1)
      | (Inr c, g1) \<Rightarrow>
          (case validate_credentials V c of
             Inl e \<Rightarrow> (Inl (HTTPException 401), g1)
           | Inr valid \<Rightarrow>
               if \<not> valid then (Inl (HTTPException 401), reset_bybit_client g1)
               else (Inr (), g1)))"

text \<open>
  Lines 116 to 137: mark the stored row of the venue, if there is one, for deletion, add
  the new row, commit.
\<close>

definition new_exchange_api :: "env \<Rightarrow> KeyRequest \<Rightarrow> str \<Rightarrow> str \<Rightarrow> ExchangeAPI" where
  "new_exchange_api E req encrypted_key encrypted_secret =
     \<lparr>row_id = 0,
      exchange = lower (req_exchange req),
      api_key_encrypted = encrypted_key,
      api_secret_encrypted = encrypted_secret,
      passphrase_encrypted = None,
      row_testnet = req_testnet req,
      is_connected = True,
      last_connection_check = Some (utcnow E),
      connection_error = None,
      total_positions = 0,
      closed_positions = 0,
      failed_closures = 0,
      created_at = utcnow E,
      updated_at = utcnow E\<rparr>"

definition replace_keys ::
  "env \<Rightarrow> KeyRequest \<Rightarrow> str \<Rightarrow> str \<Rightarrow> database \<Rightarrow> exn + (ExchangeAPI \<times> database)" where
  "replace_keys E req encrypted_key encrypted_secret d =
     db_commit d (query_first d (lower (req_exchange req)))
       (new_exchange_api E req encrypted_key encrypted_secret)"

text \<open>
  The body of the outer \<open>try\<close> of \<open>add_api_keys\<close>.  The store changes only when the
  commit, its last step, goes through.
\<close>

definition add_api_keys_try :: "env \<Rightarrow> KeyRequest \<Rightarrow> system \<Rightarrow> (exn + add_response) \<times> system" where
  "add_api_keys_try E req S =
     (if req_api_key req = [] \<or> req_api_secret req = [] then (Inl (HTTPException 400), S)
      else if lower (req_exchange req) \<noteq> lit ''bybit'' then (Inl (HTTPException 400), S)
      else
        (case encrypt (manager E) (entropy_key E) (req_api_key req) of
           Inl e \<Rightarrow> (Inl e, S)
         | Inr encrypted_key \<Rightarrow>
        (case encrypt (manager E) (entropy_secret E) (req_api_secret req) of
           Inl e \<Rightarrow> (Inl e, S)
         | Inr encrypted_secret \<Rightarrow>
        (case check_credentials (the_venue E) req (svc S) of
           (Inl e, g) \<Rightarrow> (Inl e, S\<lparr>svc := g\<rparr>)
         | (Inr u, g) \<Rightarrow>
        (case replace_keys E req encrypted_key encrypted_secret (db S) of
           Inl e \<Rightarrow> (Inl e, S\<lparr>svc := g\<rparr>)
         | Inr (row, d) \<Rightarrow>
             (Inr \<lparr>add_status = lit ''success'', add_exchange = req_exchange req,
                   add_testnet = req_testnet req, add_exchange_id = row_id row\<rparr>,
              \<lparr>db = d, svc = g\<rparr>))))))"

text \<open>
  \<open>except HTTPException: raise\<close> and \<open>except Exception: raise HTTPException(500)\<close>,
  the two handlers that close \<open>add_api_keys\<close> and \<open>remove_api_keys\<close>.
\<close>

fun as_http :: "exn \<Rightarrow> exn" where
  "as_http (HTTPException code) = HTTPException code"
| "as_http e = HTTPException 500"

definition add_api_keys :: "env \<Rightarrow> KeyRequest \<Rightarrow> system \<Rightarrow> (exn + add_response) \<times> system" where
  "add_api_keys E req S =
     (case add_api_keys_try E req S of
        (Inl e, S1) \<Rightarrow> (Inl (as_http e), S1)
      | (Inr r, S1) \<Rightarrow> (Inr r, S1))"

record test_response =
  test_status :: str
  is_valid :: bool

text \<open>
  \<open>test_api_keys\<close>.  Its one handler, \<open>except Exception\<close>, turns everything raised in
  the body into the error answer: the \<open>HTTPException(400)\<close> of the input check and
  whatever \<open>get_bybit_client\<close> raises, both of them before the reset is reached.
\<close>

definition test_error :: test_response where
  "test_error = \<lparr>test_status = lit ''error'', is_valid = False\<rparr>"

definition test_api_keys :: "venue \<Rightarrow> KeyRequest \<Rightarrow> service \<Rightarrow> test_response \<times> service" where
  "test_api_keys V req g =
     (if req_api_key req = [] \<or> req_api_secret req = [] then (test_error, g)
      else
        (case get_bybit_client V (req_api_key req) (req_api_secret req) (req_testnet req) g of
           (Inl e, g1) \<Rightarrow> (test_error, g1)
         | (Inr c, g1) \<Rightarrow>
             (case validate_credentials V c of
                Inl e \<Rightarrow> (test_error, g1)
              | Inr valid \<Rightarrow>
                  (if valid then \<lparr>test_status = lit ''success'', is_valid = True\<rparr>
                   else \<lparr>test_status = lit ''error'', is_valid = False\<rparr>,
                   reset_bybit_client g1))))"

text \<open>\<open>remove_api_keys\<close>; the answer of a successful call is its status.\<close>

definition remove_api_keys_try :: "str \<Rightarrow> system \<Rightarrow> (exn + str) \<times> system" where
  "remove_api_keys_try name S =
     (case query_first (db S) (lower name) of
        None \<Rightarrow> (Inl (HTTPException 404), S)
      | Some row \<Rightarrow>
          (Inr (lit ''success''),
           \<lparr>db = db_delete (db S) row, svc = reset_bybit_client (svc S)\<rparr>))"

definition remove_api_keys :: "str \<Rightarrow> system \<Rightarrow> (exn + str) \<times> system" where
  "remove_api_keys name S =
     (case remove_api_keys_try name S of
        (Inl e, S1) \<Rightarrow> (Inl (as_http e), S1)
      | (Inr r, S1) \<Rightarrow> (Inr r, S1))"

section \<open>positions.py: the positions route\<close>

text \<open>\<open>for pos in positions\<close>: the items an object yields when iterated.\<close>

fun py_iter :: "pyval \<Rightarrow> exn + pyval list" where
  "py_iter (PList xs) = Inr xs"
| "py_iter (PDict kvs) = Inr (map (\<lambda>kv. PStr (fst kv)) kvs)"
| "py_iter (PStr s) = Inr (map (\<lambda>c. PStr [c]) s)"
| "py_iter _ = Inl TypeError"

text \<open>\<open>float(d.get(name, default))\<close>\<close>

definition get_float :: "venue \<Rightarrow> pyval \<Rightarrow> string \<Rightarrow> pyval \<Rightarrow> exn + real" where
  "get_float V d name dflt =
     bind (dict_get d (lit name) dflt) (py_float (float_of_str V) (float_of_int V))"

text \<open>
  An entry of the list the route answers with; \<open>size_of\<close> is its key \<open>size\<close> and
  \<open>position_idx\<close> its key \<open>position_id\<close>.
\<close>

record position_entry =
  symbol :: pyval
  side :: pyval
  size_of :: real
  entry_price :: real
  mark_price :: real
  pnl :: real
  pnl_percent :: real
  leverage :: real
  position_idx :: pyval

text \<open>Lines 52 to 67: the loop that keeps the entries of positive size.\<close>

fun format_positions :: "venue \<Rightarrow> pyval list \<Rightarrow> exn + position_entry list" where
  "format_positions V [] = Inr []"
| "format_positions V (pos # rest) =
     bind (get_float V pos ''size'' (PInt 0)) (\<lambda>sz.
     if sz > 0 then
       bind (dict_get pos (lit ''symbol'') PNone) (\<lambda>sym.
       bind (dict_get pos (lit ''side'') PNone) (\<lambda>sd.
       bind (get_float V pos ''entryPrice'' (PInt 0)) (\<lambda>ep.
       bind (get_float V pos ''markPrice'' (PInt 0)) (\<lambda>mp.
       bind (get_float V pos ''unrealisedPnl'' (PInt 0)) (\<lambda>pl.
       bind (get_float V pos ''unrealisedPnlPct'' (PInt 0)) (\<lambda>pct.
       bind (get_float V pos ''leverage'' (PInt 1)) (\<lambda>lv.
       bind (dict_get pos (lit ''positionIdx'') PNone) (\<lambda>idx.
       bind (format_positions V rest) (\<lambda>formatted.
       Inr (\<lparr>symbol = sym, side = sd, size_of = sz, entry_price = ep, mark_price = mp,
             pnl = pl, pnl_percent = pct * 100, leverage = lv, position_idx = idx\<rparr>
            # formatted))))))))))
     else format_positions V rest)"

record positions_response =
  positions_status :: str
  positions :: "position_entry list"
  total :: nat

definition positions_error :: positions_response where
  "positions_error = \<lparr>positions_status = lit ''error'', positions = [], total = 0\<rparr>"

text \<open>Lines 47 to 82, after the session has been obtained.\<close>

definition fetch_positions :: "venue \<Rightarrow> BybitClientWrapper \<Rightarrow> exn + positions_response" where
  "fetch_positions V client =
     bind (client_get_positions V (api_key client) (api_secret client) (testnet client))
       (\<lambda>result.
     bind (response_ok result) (\<lambda>ok.
     if ok then
       bind (dict_get result (lit ''result'') (PDict [])) (\<lambda>res.
       bind (dict_get res (lit ''list'') (PList [])) (\<lambda>lst.
       bind (py_iter lst) (\<lambda>items.
       bind (format_positions V items) (\<lambda>formatted.
       Inr \<lparr>positions_status = lit ''success'', positions = formatted,
            total = length formatted\<rparr>))))
     else Inr \<lparr>positions_status = lit ''success'', positions = [], total = 0\<rparr>))"

text \<open>
  The route \<open>get_positions\<close> of positions.py.  The inner handler turns every exception
  of the body into the error answer; the store lookup before it does not fail here, so
  the outer handler has nothing to catch.
\<close>

definition get_positions_route :: "env \<Rightarrow> system \<Rightarrow> positions_response \<times> service" where
  "get_positions_route E S =
     (case query_first (db S) (lit ''bybit'') of
        None \<Rightarrow> (positions_error, svc S)
      | Some row \<Rightarrow>
          (case decrypt (manager E) (api_key_encrypted row) of
             Inl e \<Rightarrow> (positions_error, svc S)
           | Inr key \<Rightarrow>
          (case decrypt (manager E) (api_secret_encrypted row) of
             Inl e \<Rightarrow> (positions_error, svc S)
           | Inr secret \<Rightarrow>
          (case get_bybit_client (the_venue E) key secret (row_testnet row) (svc S) of
             (Inl e, g) \<Rightarrow> (positions_error, g)
           | (Inr client, g) \<Rightarrow>
               (case fetch_positions (the_venue E) client of
                  Inl e \<Rightarrow> (positions_error, g)
                | Inr answer \<Rightarrow> (answer, g))))))"

section \<open>Runs of the system and what they preserve\<close>

text \<open>
  The states the process can be in: it starts with an empty store and an empty session
  slot, serves requests one after the other, and may be started again over the store it
  left.  Besides the three handlers above, the routes for positions, orders and account
  each make one call to \<open>get_bybit_client\<close>.
\<close>

inductive reachable :: "system \<Rightarrow> bool" where
  by_start: "reachable system_init"
| by_restart: "reachable S \<Longrightarrow> reachable (S\<lparr>svc := service_init\<rparr>)"
| by_add: "reachable S \<Longrightarrow> reachable (snd (add_api_keys E req S))"
| by_test: "reachable S \<Longrightarrow> reachable (S\<lparr>svc := snd (test_api_keys V req (svc S))\<rparr>)"
| by_remove: "reachable S \<Longrightarrow> reachable (snd (remove_api_keys name S))"
| by_obtain: "reachable S \<Longrightarrow> reachable (S\<lparr>svc := snd (get_bybit_client V k s t (svc S))\<rparr>)"

text \<open>
  The slot holds a session with this key and this network mode.
\<close>

definition bound_to :: "service \<Rightarrow> str \<Rightarrow> bool \<Rightarrow> bool" where
  "bound_to g k t =
     (case bybit_client g of None \<Rightarrow> False | Some c \<Rightarrow> api_key c = k \<and> testnet c = t)"

text \<open>
  The recorded network mode is the one of the session held, and the session held is
  one of the wrappers built so far.
\<close>

definition service_inv :: "service \<Rightarrow> bool" where
  "service_inv g =
     (case bybit_client g of
        None \<Rightarrow> True
      | Some c \<Rightarrow> testnet_mode g = testnet c \<and> wid c < allocated g)"

text \<open>The constraints of the table: primary key and \<open>unique=True\<close> on \<open>exchange\<close>.\<close>

definition db_inv :: "database \<Rightarrow> bool" where
  "db_inv d =
     (distinct (map row_id (exchange_api d)) \<and> distinct (map exchange (exchange_api d)))"

text \<open>The rows stored for a venue, \<open>get(venue)\<close> of the specification being the first.\<close>

definition rows_for :: "database \<Rightarrow> str \<Rightarrow> ExchangeAPI list" where
  "rows_for d name = filter (\<lambda>r. exchange r = name) (exchange_api d)"

text \<open>A series of calls to \<open>get_bybit_client\<close>, and two triples taken in turn.\<close>

fun obtain_all :: "venue \<Rightarrow> (str \<times> str \<times> bool) list \<Rightarrow> service \<Rightarrow> service" where
  "obtain_all V [] g = g"
| "obtain_all V ((k, s, t) # rs) g = obtain_all V rs (snd (get_bybit_client V k s t g))"

fun alternate :: "'a \<Rightarrow> 'a \<Rightarrow> nat \<Rightarrow> 'a list" where
  "alternate a b 0 = []"
| "alternate a b (Suc n) = a # alternate b a n"

text \<open>A venue for concrete runs: it accepts the secret \<open>"s3cret"\<close> and no other.\<close>

definition fake_balance :: "str \<Rightarrow> str \<Rightarrow> bool \<Rightarrow> exn + pyval" where
  "fake_balance k s t =
     (if s = lit ''s3cret''
      then Inr (PDict [(lit ''retCode'', PInt 0),
                       (lit ''result'', PDict [(lit ''list'',
                          PList [PDict [(lit ''totalEquity'', PInt 7)]])])])
      else Inr (PDict [(lit ''retCode'', PInt 10003)]))"

definition fake_orders :: "str \<Rightarrow> str \<Rightarrow> bool \<Rightarrow> exn + pyval" where
  "fake_orders k s t =
     Inr (PDict [(lit ''retCode'', PInt 0),
                 (lit ''result'', PDict [(lit ''list'',
                    PList [PDict [(lit ''symbol'', PStr (lit ''BTCUSDT'')),
                                  (lit ''size'', PStr (lit ''0''))]])])])"

definition fake_venue :: venue where
  "fake_venue =
     \<lparr>http_init = (\<lambda>k s t. None),
      get_wallet_balance = fake_balance,
      get_open_orders = fake_orders,
      client_get_positions = fake_orders,
      float_of_str = (\<lambda>s. if s = lit ''0'' then Some 0 else None),
      float_of_int = (\<lambda>i. Some (of_int i))\<rparr>"

definition down_venue :: venue where
  "down_venue =
     \<lparr>http_init = (\<lambda>k s t. None),
      get_wallet_balance = (\<lambda>k s t. Inl (LibraryError 1)),
      get_open_orders = (\<lambda>k s t. Inl (LibraryError 1)),
      client_get_positions = (\<lambda>k s t. Inl (LibraryError 1)),
      float_of_str = (\<lambda>s. None),
      float_of_int = (\<lambda>i. Some (of_int i))\<rparr>"

definition fake_env :: env where
  "fake_env =
     \<lparr>the_venue = fake_venue, manager = \<lparr>cipher = fake_fernet 0\<rparr>,
      entropy_key = 1, entropy_secret = 2, utcnow = 1000\<rparr>"

text \<open>
  A venue call has failed when it raised, or when what it returned does not pass the
  test \<open>result and result.get('retCode') == 0\<close>.
\<close>

definition venue_call_failed :: "exn + pyval \<Rightarrow> bool" where
  "venue_call_failed r =
     (case r of Inl e \<Rightarrow> True | Inr result \<Rightarrow> response_ok result \<noteq> Inr True)"

text \<open>
  The venue rejects the credentials of a request: the session cannot be obtained, or
  \<open>validate_credentials\<close> of the session obtained does not return \<open>True\<close>.
\<close>

definition venue_rejects :: "venue \<Rightarrow> KeyRequest \<Rightarrow> service \<Rightarrow> bool" where
  "venue_rejects V req g =
     (case get_bybit_client V (req_api_key req) (req_api_secret req) (req_testnet req) g of
        (Inl e, g1) \<Rightarrow> True
      | (Inr c, g1) \<Rightarrow> validate_credentials V c \<noteq> Inr True)"

text \<open>Data for concrete runs.\<close>

definition fake_wrapper :: BybitClientWrapper where
  "fake_wrapper =
     \<lparr>api_key = lit ''key1'', api_secret = lit ''s3cret'', testnet = False, wid = 0\<rparr>"

definition fake_request :: KeyRequest where
  "fake_request =
     \<lparr>req_exchange = lit ''Bybit'', req_api_key = lit ''key1'',
      req_api_secret = lit ''s3cret'', req_testnet = False\<rparr>"

definition fake_row :: ExchangeAPI where
  "fake_row =
     \<lparr>row_id = 1, exchange = lit ''bybit'',
      api_key_encrypted = lit ''aGLGFHJDB'',
      api_secret_encrypted = lit ''aHDDDGDHCGFHE'',
      passphrase_encrypted = None, row_testnet = False, is_connected = True,
      last_connection_check = Some 1000, connection_error = None,
      total_positions = 0, closed_positions = 0, failed_closures = 0,
      created_at = 1000, updated_at = 1000\<rparr>"

definition fake_session :: service where
  "fake_session = \<lparr>bybit_client = Some fake_wrapper, testnet_mode = False, allocated = 1\<rparr>"

definition fake_stored :: system where
  "fake_stored = \<lparr>db = \<lparr>exchange_api = [fake_row], events = []\<rparr>, svc = fake_session\<rparr>"

definition fake_event :: "nat \<Rightarrow> nat \<Rightarrow> Event" where
  "fake_event i x =
     \<lparr>event_id = i, exchange_id = x, position_id = None, event_type = INFO,
      title = lit ''note'', description = None, event_data = None,
      severity = lit ''info'', event_created_at = 900\<rparr>"

definition broken_venue :: venue where
  "broken_venue = fake_venue\<lparr>http_init := (\<lambda>k s t. Some (LibraryError 2))\<rparr>"

text \<open>
  The slot holds a session for \<open>key1\<close> and nothing is stored: the state after one call of
  \<open>get_bybit_client\<close> in a fresh process.
\<close>

definition fake_cached :: system where
  "fake_cached = \<lparr>db = database_init, svc = fake_session\<rparr>"

text \<open>
  What the library promises of Fernet objects about the tokens they refuse.  A token is
  produced under a cipher when it is what that cipher's encryption returns for some
  octet string and some entropy.  Integrity: a cipher refuses, with \<open>InvalidToken\<close>,
  every octet string that is not a token produced under it; this covers the string that
  is no token at all and the token that was altered after it was made, whose integrity
  tag no longer verifies.  Key separation: in a family of ciphers indexed by their
  keys, as \<open>Fernet(key)\<close> builds them, no token produced under one key is produced under
  another.
\<close>

definition produced_under :: "Fernet \<Rightarrow> bytes \<Rightarrow> bool" where
  "produced_under F t = (\<exists>n b. octets b \<and> t = f_encrypt F n b)"

definition fernet_integrity :: "Fernet \<Rightarrow> bool" where
  "fernet_integrity F = (\<forall>t. \<not> produced_under F t \<longrightarrow> f_decrypt F t = Inl InvalidToken)"

definition keys_separate :: "('k \<Rightarrow> Fernet) \<Rightarrow> bool" where
  "keys_separate L =
     (\<forall>ka kb t. ka \<noteq> kb \<and> produced_under (L ka) t \<longrightarrow> \<not> produced_under (L kb) t)"

text \<open>A stand-in library with two keys.\<close>

definition fake_library :: "bool \<Rightarrow> Fernet" where
  "fake_library key = fake_fernet (if key then 1 else 0)"

section \<open>Auxiliary facts\<close>

lemma bind_Inr [simp]: "bind (Inr v) f = f v"
  by (simp add: bind_def)

lemma bind_Inl [simp]: "bind (Inl e) f = Inl e"
  by (simp add: bind_def)

lemma construct_ok:
  "http_init V k s t = None \<Longrightarrow>
   construct V k s t g =
     (Inr \<lparr>api_key = k, api_secret = s, testnet = t, wid = allocated g\<rparr>,
      g\<lparr>bybit_client := Some \<lparr>api_key = k, api_secret = s, testnet = t, wid = allocated g\<rparr>,
        testnet_mode := t, allocated := Suc (allocated g)\<rparr>)"
  by (simp add: construct_def BybitClientWrapper_init_def)

lemma construct_raises:
  "http_init V k s t = Some e \<Longrightarrow> construct V k s t g = (Inl e, g)"
  by (simp add: construct_def BybitClientWrapper_init_def)

lemma construct_inv: "service_inv g \<Longrightarrow> service_inv (snd (construct V k s t g))"
  by (cases "http_init V k s t") (simp_all add: construct_ok construct_raises service_inv_def)

lemma get_unbound:
  "service_inv g \<Longrightarrow> \<not> bound_to g k t \<Longrightarrow> get_bybit_client V k s t g = construct V k s t g"
  by (auto simp: get_bybit_client_def service_inv_def bound_to_def split: option.splits)

lemma get_bound:
  "service_inv g \<Longrightarrow> bybit_client g = Some c \<Longrightarrow> api_key c = k \<Longrightarrow> testnet c = t \<Longrightarrow>
   get_bybit_client V k s t g = (Inr c, g)"
  by (simp add: get_bybit_client_def service_inv_def)

lemma get_inv: "service_inv g \<Longrightarrow> service_inv (snd (get_bybit_client V k s t g))"
  by (auto simp: get_bybit_client_def construct_inv split: option.splits)

lemma reset_inv: "service_inv (reset_bybit_client g)"
  by (simp add: reset_bybit_client_def service_inv_def)

lemma get_result_inv:
  "service_inv g \<Longrightarrow> get_bybit_client V k s t g = (r, g1) \<Longrightarrow> service_inv g1"
  using get_inv[of g V k s t] by simp

lemma check_credentials_inv:
  "service_inv g \<Longrightarrow> service_inv (snd (check_credentials V req g))"
  by (auto simp: check_credentials_def reset_inv split: prod.splits sum.splits dest: get_result_inv)

lemma test_api_keys_inv:
  "service_inv g \<Longrightarrow> service_inv (snd (test_api_keys V req g))"
  by (auto simp: test_api_keys_def reset_inv split: prod.splits sum.splits dest: get_result_inv)

lemma add_api_keys_svc_inv:
  "service_inv (svc S) \<Longrightarrow> service_inv (svc (snd (add_api_keys E req S)))"
proof -
  assume a: "service_inv (svc S)"
  have "service_inv (svc (snd (add_api_keys_try E req S)))"
    using a check_credentials_inv[OF a, of "the_venue E" req]
    by (auto simp: add_api_keys_try_def split: prod.splits sum.splits)
  then show ?thesis by (auto simp: add_api_keys_def split: prod.splits sum.splits)
qed

lemma remove_api_keys_svc_inv:
  "service_inv (svc S) \<Longrightarrow> service_inv (svc (snd (remove_api_keys name S)))"
  by (auto simp: remove_api_keys_def remove_api_keys_try_def reset_inv split: option.splits)

lemma reachable_service_inv: "reachable S \<Longrightarrow> service_inv (svc S)"
proof (induction rule: reachable.induct)
  case by_start
  show ?case by (simp add: system_init_def service_init_def service_inv_def)
next
  case (by_restart S)
  show ?case by (simp add: service_init_def service_inv_def)
next
  case (by_add S E req)
  from by_add.IH show ?case by (rule add_api_keys_svc_inv)
next
  case (by_test S V req)
  then show ?case by (simp add: test_api_keys_inv)
next
  case (by_remove S name)
  from by_remove.IH show ?case by (rule remove_api_keys_svc_inv)
next
  case (by_obtain S V k s t)
  then show ?case by (simp add: get_inv)
qed

lemma construct_bound:
  "http_init V k s t = None \<Longrightarrow> bound_to (snd (construct V k s t g)) k t"
  by (simp add: construct_ok bound_to_def)

lemma construct_allocated:
  "http_init V k s t = None \<Longrightarrow> allocated (snd (construct V k s t g)) = Suc (allocated g)"
  by (simp add: construct_ok)

lemma bound_to_unique:
  "bound_to g k t \<Longrightarrow> k \<noteq> k' \<or> t \<noteq> t' \<Longrightarrow> \<not> bound_to g k' t'"
  by (auto simp: bound_to_def split: option.splits)

lemma alternate_constructs:
  "service_inv g \<Longrightarrow> \<not> bound_to g k1 t1 \<Longrightarrow> k1 \<noteq> k2 \<or> t1 \<noteq> t2 \<Longrightarrow>
   http_init V k1 s1 t1 = None \<Longrightarrow> http_init V k2 s2 t2 = None \<Longrightarrow>
   allocated (obtain_all V (alternate (k1, s1, t1) (k2, s2, t2) n) g) = allocated g + n"
proof (induction n arbitrary: g k1 s1 t1 k2 s2 t2)
  case 0
  show ?case by simp
next
  case (Suc n)
  let ?g = "snd (construct V k1 s1 t1 g)"
  have step: "get_bybit_client V k1 s1 t1 g = construct V k1 s1 t1 g"
    using Suc.prems(1,2) by (rule get_unbound)
  have "service_inv ?g" using Suc.prems(1) by (rule construct_inv)
  moreover have "\<not> bound_to ?g k2 t2"
    using construct_bound[OF Suc.prems(4)] Suc.prems(3) by (rule bound_to_unique)
  moreover have "k2 \<noteq> k1 \<or> t2 \<noteq> t1" using Suc.prems(3) by auto
  ultimately have "allocated (obtain_all V (alternate (k2, s2, t2) (k1, s1, t1) n) ?g)
      = allocated ?g + n"
    using Suc.prems(4,5) by (intro Suc.IH)
  then show ?case by (simp add: step construct_allocated[OF Suc.prems(4)])
qed

lemma fold_max_ge: "x \<in> set xs \<Longrightarrow> x \<le> fold max xs (m::nat)"
proof (induction xs arbitrary: m)
  case Nil
  then show ?case by simp
next
  case (Cons y ys)
  have mono: "\<And>a. a \<le> fold max ys a"
  proof -
    fix a show "a \<le> fold max ys (a::nat)"
    proof (induction ys arbitrary: a)
      case Nil show ?case by simp
    next
      case (Cons z zs)
      have "a \<le> max z a" by simp
      also have "\<dots> \<le> fold max zs (max z a)" by (rule Cons.IH)
      finally show ?case by simp
    qed
  qed
  show ?case
  proof (cases "x = y")
    case True
    have "y \<le> max y m" by simp
    also have "\<dots> \<le> fold max ys (max y m)" by (rule mono)
    finally show ?thesis using True by simp
  next
    case False
    with Cons.prems have "x \<in> set ys" by simp
    then show ?thesis using Cons.IH by simp
  qed
qed

lemma fresh_id_new:
  assumes "r \<in> set rows"
  shows "row_id r \<noteq> fresh_id rows" and "fresh_id rows \<noteq> row_id r"
proof -
  from assms have "row_id r \<in> set (map row_id rows)" by simp
  then have "row_id r \<le> fold max (map row_id rows) 0" by (rule fold_max_ge)
  then show "row_id r \<noteq> fresh_id rows" and "fresh_id rows \<noteq> row_id r"
    by (simp_all add: fresh_id_def)
qed

lemma db_delete_inv: "db_inv d \<Longrightarrow> db_inv (db_delete d row)"
  by (simp add: db_inv_def db_delete_def distinct_map_filter)

lemma db_add_inv:
  assumes "db_inv d" and "db_add d row = Inr (row', d')"
  shows "db_inv d'"
proof -
  let ?new = "row\<lparr>row_id := fresh_id (exchange_api d)\<rparr>"
  from assms(2) have no: "\<forall>r \<in> set (exchange_api d). exchange r \<noteq> exchange row"
    and d': "d' = d\<lparr>exchange_api := exchange_api d @ [?new]\<rparr>"
    by (auto simp: db_add_def split: if_splits)
  have "row_id ?new \<notin> set (map row_id (exchange_api d))"
    by (auto simp: fresh_id_new)
  moreover have "exchange ?new \<notin> set (map exchange (exchange_api d))"
    using no by auto
  ultimately show ?thesis using assms(1) unfolding d' db_inv_def by simp
qed

lemma replace_keys_inv:
  assumes "db_inv d" and "replace_keys E req ek es d = Inr (row, d')"
  shows "db_inv d'"
proof -
  from assms(2) obtain d1
    where add: "db_add d (new_exchange_api E req ek es) = Inr (row, d1)"
      and d': "d' = (case query_first d (lower (req_exchange req)) of
                       Some old \<Rightarrow> db_delete d1 old | None \<Rightarrow> d1)"
    by (auto simp: replace_keys_def db_commit_def split: sum.splits)
  have "db_inv d1" using assms(1) add by (rule db_add_inv)
  then show ?thesis unfolding d' by (simp add: db_delete_inv split: option.splits)
qed

lemma add_api_keys_db:
  "add_api_keys E req S = (r, S') \<Longrightarrow>
   db S' = db S \<or>
   (\<exists>ek es row. encrypt (manager E) (entropy_key E) (req_api_key req) = Inr ek
      \<and> encrypt (manager E) (entropy_secret E) (req_api_secret req) = Inr es
      \<and> replace_keys E req ek es (db S) = Inr (row, db S'))"
  by (auto simp: add_api_keys_def add_api_keys_try_def split: if_splits sum.splits prod.splits)

lemma add_api_keys_db_inv:
  "db_inv (db S) \<Longrightarrow> db_inv (db (snd (add_api_keys E req S)))"
  using add_api_keys_db[of E req S "fst (add_api_keys E req S)" "snd (add_api_keys E req S)"]
  by (auto dest: replace_keys_inv)

lemma remove_api_keys_db_inv:
  "db_inv (db S) \<Longrightarrow> db_inv (db (snd (remove_api_keys name S)))"
  by (auto simp: remove_api_keys_def remove_api_keys_try_def db_delete_inv split: option.splits)

lemma reachable_db_inv: "reachable S \<Longrightarrow> db_inv (db S)"
proof (induction rule: reachable.induct)
  case by_start
  show ?case by (simp add: system_init_def database_init_def db_inv_def)
next
  case (by_restart S)
  then show ?case by simp
next
  case (by_add S E req)
  from by_add.IH show ?case by (rule add_api_keys_db_inv)
next
  case (by_test S V req)
  then show ?case by simp
next
  case (by_remove S name)
  from by_remove.IH show ?case by (rule remove_api_keys_db_inv)
next
  case (by_obtain S V k s t)
  then show ?case by simp
qed


section \<open>The session slot\<close>

text \<open>
  Claim C1.  In every state the process can reach: a call of \<open>get_bybit_client\<close> for a
  key and network mode the slot is not bound to (the slot is empty, or its session
  differs in key or in mode) builds a new wrapper for the requested key, secret and
  mode, whenever the client constructor returns, stores it, and the wrapper is none of
  those built before (when the constructor raises, the exception is passed on and the
  state is as it was); a call for the key and mode of the session held returns that very
  session and leaves the state as it was, whatever secret is passed; and when calls for
  two triples that differ in key or mode are made in turn, starting from a slot not
  bound to the first, every one of the \<open>n\<close> calls builds a wrapper.
\<close>

theorem obtain_single_slot:
  assumes "reachable S"
  shows "(\<not> bound_to (svc S) k t \<and> http_init V k s t = None \<longrightarrow>
            get_bybit_client V k s t (svc S) =
              (Inr \<lparr>api_key = k, api_secret = s, testnet = t, wid = allocated (svc S)\<rparr>,
               (svc S)\<lparr>bybit_client :=
                          Some \<lparr>api_key = k, api_secret = s, testnet = t, wid = allocated (svc S)\<rparr>,
                        testnet_mode := t, allocated := Suc (allocated (svc S))\<rparr>)
            \<and> (\<forall>c. bybit_client (svc S) = Some c \<longrightarrow> wid c \<noteq> allocated (svc S)))
       \<and> (\<not> bound_to (svc S) k t \<and> http_init V k s t = Some e \<longrightarrow>
            get_bybit_client V k s t (svc S) = (Inl e, svc S))
       \<and> (\<forall>c. bybit_client (svc S) = Some c \<and> api_key c = k \<and> testnet c = t \<longrightarrow>
            get_bybit_client V k s t (svc S) = (Inr c, svc S))
       \<and> (\<not> bound_to (svc S) k t \<and> (k \<noteq> k' \<or> t \<noteq> t')
            \<and> http_init V k s t = None \<and> http_init V k' s' t' = None \<longrightarrow>
            allocated (obtain_all V (alternate (k, s, t) (k', s', t') n) (svc S))
              = allocated (svc S) + n)"
proof -
  have inv: "service_inv (svc S)" using assms by (rule reachable_service_inv)
  have fresh: "\<forall>c. bybit_client (svc S) = Some c \<longrightarrow> wid c \<noteq> allocated (svc S)"
    using inv by (auto simp: service_inv_def)
  have a: "\<not> bound_to (svc S) k t \<and> http_init V k s t = None \<longrightarrow>
            get_bybit_client V k s t (svc S) =
              (Inr \<lparr>api_key = k, api_secret = s, testnet = t, wid = allocated (svc S)\<rparr>,
               (svc S)\<lparr>bybit_client :=
                          Some \<lparr>api_key = k, api_secret = s, testnet = t, wid = allocated (svc S)\<rparr>,
                        testnet_mode := t, allocated := Suc (allocated (svc S))\<rparr>)"
    using inv by (simp add: get_unbound construct_ok)
  have r: "\<not> bound_to (svc S) k t \<and> http_init V k s t = Some e \<longrightarrow>
            get_bybit_client V k s t (svc S) = (Inl e, svc S)"
    using inv by (simp add: get_unbound construct_raises)
  have b: "\<forall>c. bybit_client (svc S) = Some c \<and> api_key c = k \<and> testnet c = t \<longrightarrow>
            get_bybit_client V k s t (svc S) = (Inr c, svc S)"
    using inv by (simp add: get_bound)
  have c: "\<not> bound_to (svc S) k t \<and> (k \<noteq> k' \<or> t \<noteq> t')
            \<and> http_init V k s t = None \<and> http_init V k' s' t' = None \<longrightarrow>
            allocated (obtain_all V (alternate (k, s, t) (k', s', t') n) (svc S))
              = allocated (svc S) + n"
    using inv by (auto intro: alternate_constructs)
  from a r b c fresh show ?thesis by blast
qed



theorem obtain_single_slot_witness:
  "reachable system_init
   \<and> reachable (system_init\<lparr>svc := snd (get_bybit_client fake_venue (lit ''k1'') (lit ''s1'') False
                                        (svc system_init))\<rparr>)
   \<and> get_bybit_client fake_venue (lit ''k1'') (lit ''s1'') False (svc system_init) =
       (Inr \<lparr>api_key = lit ''k1'', api_secret = lit ''s1'', testnet = False, wid = 0\<rparr>,
        \<lparr>bybit_client = Some \<lparr>api_key = lit ''k1'', api_secret = lit ''s1'', testnet = False, wid = 0\<rparr>,
         testnet_mode = False, allocated = 1\<rparr>)
   \<and> get_bybit_client fake_venue (lit ''k1'') (lit ''other'') False
        \<lparr>bybit_client = Some \<lparr>api_key = lit ''k1'', api_secret = lit ''s1'', testnet = False, wid = 0\<rparr>,
         testnet_mode = False, allocated = 1\<rparr> =
       (Inr \<lparr>api_key = lit ''k1'', api_secret = lit ''s1'', testnet = False, wid = 0\<rparr>,
        \<lparr>bybit_client = Some \<lparr>api_key = lit ''k1'', api_secret = lit ''s1'', testnet = False, wid = 0\<rparr>,
         testnet_mode = False, allocated = 1\<rparr>)
   \<and> allocated (obtain_all fake_venue
        (alternate (lit ''k1'', lit ''s1'', False) (lit ''k2'', lit ''s2'', False) 4)
        (svc system_init)) = 4
   \<and> get_bybit_client broken_venue (lit ''k1'') (lit ''s1'') False (svc system_init) =
       (Inl (LibraryError 2), svc system_init)"
proof -
  have r0: "reachable system_init" by (rule reachable.by_start)
  have r1: "reachable (system_init\<lparr>svc := snd (get_bybit_client fake_venue (lit ''k1'') (lit ''s1'')
      False (svc system_init))\<rparr>)"
    using r0 by (rule reachable.by_obtain)
  have k: "lit ''k1'' \<noteq> lit ''k2''" by (simp add: lit_def)
  have h: "http_init fake_venue (lit ''k1'') (lit ''s1'') False = None"
    "http_init fake_venue (lit ''k2'') (lit ''s2'') False = None"
    by (simp_all add: fake_venue_def)
  have u: "\<not> bound_to (svc system_init) (lit ''k1'') False"
    by (simp add: bound_to_def system_init_def service_init_def)
  note a = obtain_single_slot[OF r0, where k = "lit ''k1''" and t = False and V = fake_venue
      and s = "lit ''s1''" and k' = "lit ''k2''" and t' = False and s' = "lit ''s2''" and n = 4]
  have first: "get_bybit_client fake_venue (lit ''k1'') (lit ''s1'') False (svc system_init) =
       (Inr \<lparr>api_key = lit ''k1'', api_secret = lit ''s1'', testnet = False, wid = 0\<rparr>,
        \<lparr>bybit_client = Some \<lparr>api_key = lit ''k1'', api_secret = lit ''s1'', testnet = False, wid = 0\<rparr>,
         testnet_mode = False, allocated = 1\<rparr>)"
    using a u h by (simp add: system_init_def service_init_def)
  note b = obtain_single_slot[OF r1, where k = "lit ''k1''" and t = False and V = fake_venue
      and s = "lit ''other''"]
  have second: "get_bybit_client fake_venue (lit ''k1'') (lit ''other'') False
        \<lparr>bybit_client = Some \<lparr>api_key = lit ''k1'', api_secret = lit ''s1'', testnet = False, wid = 0\<rparr>,
         testnet_mode = False, allocated = 1\<rparr> =
       (Inr \<lparr>api_key = lit ''k1'', api_secret = lit ''s1'', testnet = False, wid = 0\<rparr>,
        \<lparr>bybit_client = Some \<lparr>api_key = lit ''k1'', api_secret = lit ''s1'', testnet = False, wid = 0\<rparr>,
         testnet_mode = False, allocated = 1\<rparr>)"
    using b by (simp add: first)
  have third: "allocated (obtain_all fake_venue
        (alternate (lit ''k1'', lit ''s1'', False) (lit ''k2'', lit ''s2'', False) 4)
        (svc system_init)) = 4"
    using a u h k by (simp add: system_init_def service_init_def)
  have hb: "http_init broken_venue (lit ''k1'') (lit ''s1'') False = Some (LibraryError 2)"
    by (simp add: broken_venue_def fake_venue_def)
  have fourth: "get_bybit_client broken_venue (lit ''k1'') (lit ''s1'') False (svc system_init) =
       (Inl (LibraryError 2), svc system_init)"
    using obtain_single_slot[OF r0, where k = "lit ''k1''" and t = False and V = broken_venue
        and s = "lit ''s1''" and e = "LibraryError 2"] u hb
    by blast
  from r0 r1 first second third fourth show ?thesis by blast
qed


section \<open>The cipher\<close>

lemma digits64: "(d::nat) div 64 * (64 * m) + d mod 64 * m = d * m"
proof -
  have "d div 64 * (64 * m) + d mod 64 * m = (d div 64 * 64 + d mod 64) * m"
    by (simp only: add_mult_distrib mult.assoc)
  then show ?thesis by (simp only: div_mult_mod_eq)
qed

lemma w3: "(c::nat) div 4096 * 4096 + c div 64 mod 64 * 64 + c mod 64 = c"
proof -
  have a: "c div 4096 = c div 64 div 64" by (simp add: div_mult2_eq)
  have "c div 64 div 64 * (64 * 64) + c div 64 mod 64 * 64 = c div 64 * 64"
    by (rule digits64)
  then show ?thesis unfolding a by simp
qed

lemma w4: "(c::nat) div 262144 * 262144 + c div 4096 mod 64 * 4096 + c div 64 mod 64 * 64 + c mod 64 = c"
proof -
  have b: "c div 262144 = c div 4096 div 64" by (simp add: div_mult2_eq)
  have "c div 4096 div 64 * (64 * 4096) + c div 4096 mod 64 * 4096 = c div 4096 * 4096"
    by (rule digits64)
  then show ?thesis unfolding b using w3[of c] by simp
qed

lemma decode1: "b0 < 128 \<Longrightarrow> bytes_decode (b0 # r) = bind (bytes_decode r) (\<lambda>cs. Inr (b0 # cs))"
  by simp

lemma decode2:
  "2 \<le> h \<Longrightarrow> h < 32 \<Longrightarrow> l < 64 \<Longrightarrow>
   bytes_decode ((192 + h) # (128 + l) # r) = bind (bytes_decode r) (\<lambda>cs. Inr ((h * 64 + l) # cs))"
  by (simp add: continuation_def)

lemma decode3:
  "2048 \<le> h * 4096 + l * 64 + m \<Longrightarrow> \<not> (55296 \<le> h * 4096 + l * 64 + m \<and> h * 4096 + l * 64 + m \<le> 57343) \<Longrightarrow>
   h < 16 \<Longrightarrow> l < 64 \<Longrightarrow> m < 64 \<Longrightarrow>
   bytes_decode ((224 + h) # (128 + l) # (128 + m) # r) =
     bind (bytes_decode r) (\<lambda>cs. Inr ((h * 4096 + l * 64 + m) # cs))"
  by (simp add: continuation_def)

lemma decode4:
  "65536 \<le> h * 262144 + l * 4096 + m * 64 + n \<Longrightarrow> h * 262144 + l * 4096 + m * 64 + n < 1114112 \<Longrightarrow>
   h < 5 \<Longrightarrow> l < 64 \<Longrightarrow> m < 64 \<Longrightarrow> n < 64 \<Longrightarrow>
   bytes_decode ((240 + h) # (128 + l) # (128 + m) # (128 + n) # r) =
     bind (bytes_decode r) (\<lambda>cs. Inr ((h * 262144 + l * 4096 + m * 64 + n) # cs))"
  by (simp add: continuation_def)


lemma decode_utf8_char:
  assumes "utf8_char c = Inr b"
  shows "bytes_decode (b @ rest) = bind (bytes_decode rest) (\<lambda>cs. Inr (c # cs))"
proof -
  consider "c < 128" | "128 \<le> c" "c < 2048" | "2048 \<le> c" "c < 65536"
    | "65536 \<le> c" "c < 1114112" | "1114112 \<le> c"
    by linarith
  then show ?thesis
  proof cases
    case 1
    with assms have "b = [c]" by (simp add: utf8_char_def)
    with 1 show ?thesis by simp
  next
    case 2
    with assms have b: "b = [192 + c div 64, 128 + c mod 64]"
      by (simp add: utf8_char_def)
    have "2 \<le> c div 64" using 2(1) by (simp add: less_eq_div_iff_mult_less_eq)
    moreover have "c div 64 < 32" using 2(2) by (simp add: div_less_iff_less_mult)
    moreover have "c mod 64 < 64" by simp
    ultimately have "bytes_decode ((192 + c div 64) # (128 + c mod 64) # rest)
        = bind (bytes_decode rest) (\<lambda>cs. Inr ((c div 64 * 64 + c mod 64) # cs))"
      by (rule decode2)
    then show ?thesis unfolding b by simp
  next
    case 3
    with assms have ns: "\<not> (55296 \<le> c \<and> c \<le> 57343)"
      and b: "b = [224 + c div 4096, 128 + c div 64 mod 64, 128 + c mod 64]"
      by (simp_all add: utf8_char_def split: if_splits)
    have "c div 4096 < 16" using 3(2) by (simp add: div_less_iff_less_mult)
    moreover have "c div 64 mod 64 < 64" "c mod 64 < 64" by simp_all
    moreover have "2048 \<le> c div 4096 * 4096 + c div 64 mod 64 * 64 + c mod 64"
      using 3(1) by (simp only: w3)
    moreover have "\<not> (55296 \<le> c div 4096 * 4096 + c div 64 mod 64 * 64 + c mod 64
        \<and> c div 4096 * 4096 + c div 64 mod 64 * 64 + c mod 64 \<le> 57343)"
      using ns by (simp add: w3)
    ultimately have "bytes_decode ((224 + c div 4096) # (128 + c div 64 mod 64) # (128 + c mod 64) # rest)
        = bind (bytes_decode rest)
            (\<lambda>cs. Inr ((c div 4096 * 4096 + c div 64 mod 64 * 64 + c mod 64) # cs))"
      by (intro decode3)
    then show ?thesis unfolding b by (simp only: w3 append.simps)
  next
    case 4
    with assms have b: "b = [240 + c div 262144, 128 + c div 4096 mod 64,
        128 + c div 64 mod 64, 128 + c mod 64]"
      by (simp add: utf8_char_def)
    have "c div 262144 < 5" using 4(2) by (simp add: div_less_iff_less_mult)
    moreover have "c div 4096 mod 64 < 64" "c div 64 mod 64 < 64" "c mod 64 < 64" by simp_all
    moreover have "65536 \<le> c div 262144 * 262144 + c div 4096 mod 64 * 4096
        + c div 64 mod 64 * 64 + c mod 64"
      using 4(1) by (simp only: w4)
    moreover have "c div 262144 * 262144 + c div 4096 mod 64 * 4096
        + c div 64 mod 64 * 64 + c mod 64 < 1114112"
      using 4(2) by (simp only: w4)
    ultimately have "bytes_decode ((240 + c div 262144) # (128 + c div 4096 mod 64)
          # (128 + c div 64 mod 64) # (128 + c mod 64) # rest)
        = bind (bytes_decode rest)
            (\<lambda>cs. Inr ((c div 262144 * 262144 + c div 4096 mod 64 * 4096
                + c div 64 mod 64 * 64 + c mod 64) # cs))"
      by (intro decode4)
    then show ?thesis unfolding b by (simp only: w4 append.simps)
  next
    case 5
    with assms show ?thesis by (simp add: utf8_char_def)
  qed
qed

lemma decode_encode: "str_encode s = Inr b \<Longrightarrow> bytes_decode b = Inr s"
proof (induction s arbitrary: b)
  case Nil
  then show ?case by simp
next
  case (Cons c cs)
  then obtain b1 b2 where "utf8_char c = Inr b1" "str_encode cs = Inr b2" "b = b1 @ b2"
    by (auto simp: bind_def split: sum.splits)
  with Cons.IH[of b2] show ?case by (simp add: decode_utf8_char)
qed


lemma utf8_char_octets: "utf8_char c = Inr b \<Longrightarrow> octets b"
proof -
  assume a: "utf8_char c = Inr b"
  have m: "c mod 64 < 64" "c div 64 mod 64 < 64" "c div 4096 mod 64 < 64" by simp_all
  have d2: "c < 2048 \<Longrightarrow> c div 64 < 32" by (simp add: div_less_iff_less_mult)
  have d3: "c < 65536 \<Longrightarrow> c div 4096 < 16" by (simp add: div_less_iff_less_mult)
  have d4: "c < 1114112 \<Longrightarrow> c div 262144 < 5" by (simp add: div_less_iff_less_mult)
  from a show ?thesis
    using m d2 d3 d4 by (auto simp: utf8_char_def octets_def split: if_splits)
qed

lemma str_encode_octets: "str_encode s = Inr b \<Longrightarrow> octets b"
proof (induction s arbitrary: b)
  case Nil
  then show ?case by (simp add: octets_def)
next
  case (Cons c cs)
  then obtain b1 b2 where e: "utf8_char c = Inr b1" "str_encode cs = Inr b2" "b = b1 @ b2"
    by (auto simp: bind_def split: sum.splits)
  from e(1) have "octets b1" by (rule utf8_char_octets)
  moreover from e(2) have "octets b2" by (rule Cons.IH)
  ultimately show ?case using e(3) by (auto simp: octets_def)
qed

lemma encodable_encodes: "encodable s \<Longrightarrow> \<exists>b. str_encode s = Inr b"
proof (induction s)
  case Nil
  show ?case by simp
next
  case (Cons c cs)
  then obtain b2 where "str_encode cs = Inr b2" by (auto simp: encodable_def)
  moreover from Cons.prems have "\<exists>b1. utf8_char c = Inr b1"
    by (auto simp: encodable_def utf8_char_def)
  ultimately show ?case by auto
qed

lemma ascii_decode: "ascii b \<Longrightarrow> bytes_decode b = Inr b"
  by (induction b) (simp_all add: ascii_def)

lemma ascii_encode: "ascii b \<Longrightarrow> str_encode b = Inr b"
  by (induction b) (simp_all add: ascii_def utf8_char_def)

lemma encrypt_token:
  assumes "fernet_contract (cipher M)" and "encrypt M n s = Inr tok"
  shows "\<exists>b. str_encode s = Inr b \<and> tok = f_encrypt (cipher M) n b \<and> ascii tok
           \<and> f_decrypt (cipher M) tok = Inr b"
proof -
  from assms(2) obtain b where b: "str_encode s = Inr b"
    and d: "bytes_decode (f_encrypt (cipher M) n b) = Inr tok"
    by (auto simp: encrypt_def bind_def split: sum.splits)
  from b have "octets b" by (rule str_encode_octets)
  with assms(1) have a: "ascii (f_encrypt (cipher M) n b)"
    and r: "f_decrypt (cipher M) (f_encrypt (cipher M) n b) = Inr b"
    by (simp_all add: fernet_contract_def)
  from a d have "tok = f_encrypt (cipher M) n b" by (simp add: ascii_decode)
  with a r b show ?thesis by simp
qed

lemma decrypt_encrypt:
  assumes "fernet_contract (cipher M)" and "encrypt M n s = Inr tok"
  shows "decrypt M tok = Inr s"
proof -
  from assms obtain b where b: "str_encode s = Inr b" and a: "ascii tok"
    and r: "f_decrypt (cipher M) tok = Inr b"
    using encrypt_token by blast
  from a have "str_encode tok = Inr tok" by (rule ascii_encode)
  moreover from b have "bytes_decode b = Inr s" by (rule decode_encode)
  ultimately show ?thesis using r by (simp add: decrypt_def try_except_def)
qed

lemma encrypt_succeeds:
  assumes "fernet_contract (cipher M)" and "encodable s"
  shows "\<exists>tok. encrypt M n s = Inr tok"
proof -
  from assms(2) obtain b where b: "str_encode s = Inr b" using encodable_encodes by blast
  then have "octets b" by (rule str_encode_octets)
  with assms(1) have "ascii (f_encrypt (cipher M) n b)" by (simp add: fernet_contract_def)
  then have "bytes_decode (f_encrypt (cipher M) n b) = Inr (f_encrypt (cipher M) n b)"
    by (rule ascii_decode)
  with b show ?thesis by (simp add: encrypt_def)
qed

lemma fake_parse_tokenise: "octets b \<Longrightarrow> fake_parse (fake_tokenise b) = Inr b"
proof (induction b)
  case Nil
  show ?case by simp
next
  case (Cons x xs)
  then have x: "x < 256" and xs: "octets xs" by (simp_all add: octets_def)
  from x have "x div 16 < 16" by (simp add: div_less_iff_less_mult)
  moreover have "x div 16 * 16 + x mod 16 = x" by simp
  ultimately show ?case using Cons.IH[OF xs] by simp
qed

lemma fake_tokenise_ascii: "octets b \<Longrightarrow> ascii (fake_tokenise b)"
proof (induction b)
  case Nil
  show ?case by (simp add: ascii_def)
next
  case (Cons x xs)
  then have x: "x < 256" and xs: "octets xs" by (simp_all add: octets_def)
  from x have "x div 16 < 16" by (simp add: div_less_iff_less_mult)
  moreover have "x mod 16 < 16" by simp
  ultimately show ?case using Cons.IH[OF xs] by (simp add: ascii_def)
qed

lemma fake_fernet_contract: "fernet_contract (fake_fernet key)"
proof -
  have "key mod 26 < 26" by simp
  then have "97 + key mod 26 < 128" by linarith
  then show ?thesis
    using fake_tokenise_ascii
    by (auto simp: fernet_contract_def fake_fernet_def fake_parse_tokenise ascii_def)
qed

text \<open>
  Claim C5.  Under one key, for every string that has a UTF-8 encoding (in particular
  every ASCII string) and whatever entropy the library draws, \<open>encrypt\<close> returns a
  token and \<open>decrypt\<close> of that token returns the string: decryption is a left inverse
  of encryption.  The cipher itself is the library's; it is assumed to undo its own
  encryption and to produce ASCII tokens.
\<close>

theorem decrypt_inverts_encrypt:
  assumes "fernet_contract (cipher M)" and "encodable s"
  shows "\<exists>tok. encrypt M n s = Inr tok \<and> decrypt M tok = Inr s"
  using assms encrypt_succeeds decrypt_encrypt by blast

theorem decrypt_inverts_encrypt_witness:
  "fernet_contract (cipher \<lparr>cipher = fake_fernet 0\<rparr>)
   \<and> encodable [107, 233, 8364, 128273]
   \<and> encrypt \<lparr>cipher = fake_fernet 0\<rparr> 5 [107, 233, 8364, 128273]
       = Inr (lit ''aGLMDKJOCICKMPAJPJEJB'')
   \<and> decrypt \<lparr>cipher = fake_fernet 0\<rparr> (lit ''aGLMDKJOCICKMPAJPJEJB'')
       = Inr [107, 233, 8364, 128273]"
proof -
  have c: "fernet_contract (cipher \<lparr>cipher = fake_fernet 0\<rparr>)"
    by (simp add: fake_fernet_contract)
  have e: "encodable [107, 233, 8364, 128273]" by (simp add: encodable_def)
  have t: "encrypt \<lparr>cipher = fake_fernet 0\<rparr> 5 [107, 233, 8364, 128273]
       = Inr (lit ''aGLMDKJOCICKMPAJPJEJB'')"
    by (simp add: encrypt_def lit_def fake_fernet_def utf8_char_def)
  from decrypt_inverts_encrypt[OF c e, of 5] t c e show ?thesis by auto
qed

section \<open>The credential store\<close>

lemma remove_absent:
  "query_first (db S) (lower v) = None \<Longrightarrow> remove_api_keys v S = (Inl (HTTPException 404), S)"
  by (simp add: remove_api_keys_def remove_api_keys_try_def)

lemma remove_present:
  "query_first (db S) (lower v) = Some row \<Longrightarrow>
   remove_api_keys v S =
     (Inr (lit ''success''), \<lparr>db = db_delete (db S) row, svc = reset_bybit_client (svc S)\<rparr>)"
  by (simp add: remove_api_keys_def remove_api_keys_try_def)

lemma query_first_None: "(query_first d name = None) = (rows_for d name = [])"
  by (auto simp: query_first_def rows_for_def find_None_iff filter_empty_conv)

lemma query_first_Some:
  "query_first d name = Some row \<Longrightarrow> row \<in> set (exchange_api d) \<and> exchange row = name"
  by (auto simp: query_first_def find_Some_iff)

lemma filter_distinct_key:
  "distinct (map f xs) \<Longrightarrow> x \<in> set xs \<Longrightarrow> filter (\<lambda>y. f y = f x) xs = [x]"
proof (induction xs)
  case Nil
  then show ?case by simp
next
  case (Cons a xs)
  show ?case
  proof (cases "a = x")
    case True
    from Cons.prems(1) have "\<forall>y \<in> set xs. f y \<noteq> f x" using True by (auto simp: image_iff)
    then have "filter (\<lambda>y. f y = f x) xs = []" by (simp add: filter_empty_conv)
    with True show ?thesis by simp
  next
    case False
    with Cons.prems have "x \<in> set xs" "f a \<noteq> f x" by auto
    with Cons.IH Cons.prems(1) show ?thesis by simp
  qed
qed

lemma filter_distinct_key_none:
  "distinct (map f xs) \<Longrightarrow> x \<in> set xs \<Longrightarrow> filter (\<lambda>y. f y = f x) (filter (\<lambda>y. g y \<noteq> g x) xs) = []"
proof -
  assume a: "distinct (map f xs)" "x \<in> set xs"
  have "filter (\<lambda>y. f y = f x) (filter (\<lambda>y. g y \<noteq> g x) xs)
      = filter (\<lambda>y. g y \<noteq> g x) (filter (\<lambda>y. f y = f x) xs)"
    by (simp add: conj_commute)
  also have "\<dots> = filter (\<lambda>y. g y \<noteq> g x) [x]" using a by (simp only: filter_distinct_key)
  finally show ?thesis by simp
qed

lemma rows_for_find:
  "db_inv d \<Longrightarrow> query_first d name = Some row \<Longrightarrow> rows_for d name = [row]"
  using filter_distinct_key[of exchange "exchange_api d" row]
  by (auto simp: db_inv_def rows_for_def dest!: query_first_Some)

lemma rows_for_delete:
  "db_inv d \<Longrightarrow> query_first d name = Some row \<Longrightarrow> rows_for (db_delete d row) name = []"
  using filter_distinct_key_none[of exchange "exchange_api d" row row_id]
  by (auto simp: db_inv_def rows_for_def db_delete_def dest!: query_first_Some)

lemma rows_for_delete_other:
  assumes "db_inv d" "query_first d name = Some row" "u \<noteq> name"
  shows "rows_for (db_delete d row) u = rows_for d u"
proof -
  from assms(2) have in_d: "row \<in> set (exchange_api d)" and ex: "exchange row = name"
    by (auto dest: query_first_Some)
  from assms(1) have "distinct (map row_id (exchange_api d))" by (simp add: db_inv_def)
  then have same: "\<forall>r \<in> set (exchange_api d). row_id r = row_id row \<longrightarrow> r = row"
    using in_d by (auto simp: distinct_map inj_on_def)
  have "filter (\<lambda>r. exchange r = u) (filter (\<lambda>r. row_id r \<noteq> row_id row) (exchange_api d))
      = filter (\<lambda>r. exchange r = u) (exchange_api d)"
    unfolding filter_filter
    by (rule filter_cong) (use same ex assms(3) in auto)
  then show ?thesis by (simp add: rows_for_def db_delete_def)
qed

lemma get_after_reset:
  "http_init V k s t = None \<Longrightarrow>
   get_bybit_client V k s t (reset_bybit_client g) =
     (Inr \<lparr>api_key = k, api_secret = s, testnet = t, wid = allocated g\<rparr>,
      g\<lparr>bybit_client := Some \<lparr>api_key = k, api_secret = s, testnet = t, wid = allocated g\<rparr>,
        testnet_mode := t, allocated := Suc (allocated g)\<rparr>)"
  by (simp add: get_bybit_client_def reset_bybit_client_def construct_def
      BybitClientWrapper_init_def)


lemma rows_for_le1: "db_inv d \<Longrightarrow> length (rows_for d u) \<le> 1"
proof (cases "query_first d u")
  case None
  then show ?thesis by (simp add: query_first_None)
next
  case (Some row)
  assume "db_inv d"
  then have "rows_for d u = [row]" using Some by (rule rows_for_find)
  then show ?thesis by simp
qed

lemma db_add_rows:
  assumes "db_add d new = Inr (row, d')"
  shows "row = new\<lparr>row_id := row_id row\<rparr>"
    and "rows_for d' u = rows_for d u @ (if exchange new = u then [row] else [])"
    and "events d' = events d"
  using assms by (auto simp: db_add_def rows_for_def split: if_splits)

lemma add_api_keys_success:
  assumes "add_api_keys E req S = (Inr r, S')"
  shows "lower (req_exchange req) = lit ''bybit''
    \<and> (\<exists>ek es row.
          encrypt (manager E) (entropy_key E) (req_api_key req) = Inr ek
        \<and> encrypt (manager E) (entropy_secret E) (req_api_secret req) = Inr es
        \<and> replace_keys E req ek es (db S) = Inr (row, db S')
        \<and> add_exchange_id r = row_id row)"
  using assms
  by (auto simp: add_api_keys_def add_api_keys_try_def split: if_splits sum.splits prod.splits)

lemma find_filter_head: "filter P xs = y # ys \<Longrightarrow> find P xs = Some y"
  by (induction xs) (auto split: if_splits)

lemma query_first_single: "rows_for d name = [row] \<Longrightarrow> query_first d name = Some row"
  by (simp add: query_first_def rows_for_def find_filter_head)


lemmas run_defs =
  add_api_keys_def add_api_keys_try_def remove_api_keys_def remove_api_keys_try_def
  test_api_keys_def test_error_def check_credentials_def get_bybit_client_def construct_def
  reset_bybit_client_def BybitClientWrapper_init_def validate_credentials_def response_ok_def
  try_except_def replace_keys_def db_commit_def query_first_def rows_for_def db_add_def
  db_delete_def
  new_exchange_api_def fresh_id_def lower_def encrypt_def decrypt_def utf8_char_def lit_def
  system_init_def database_init_def service_init_def

lemmas fake_defs =
  fake_env_def fake_request_def fake_venue_def down_venue_def fake_balance_def fake_orders_def
  fake_fernet_def fake_stored_def fake_row_def fake_session_def fake_wrapper_def fake_event_def
  broken_venue_def fake_cached_def fake_library_def

lemma fake_add_run:
  "add_api_keys fake_env fake_request system_init =
     (Inr \<lparr>add_status = lit ''success'', add_exchange = lit ''Bybit'', add_testnet = False,
           add_exchange_id = 1\<rparr>, fake_stored)"
  by (simp add: run_defs fake_defs)

lemma fake_stored_reachable: "reachable fake_stored"
  using reachable.by_add[OF reachable.by_start, of fake_env fake_request]
  by (simp add: fake_add_run)

text \<open>
  Claim C2.  In every state the process can reach and for every venue name \<open>v\<close>, the
  name being compared in lower case as the handler does: when the store has no record
  for \<open>v\<close>, \<open>remove_api_keys\<close> raises \<open>HTTPException(404)\<close> and changes nothing; when it
  has one, the handler succeeds, the store has no record for \<open>v\<close> afterwards, the
  records of other venues are as before, the session slot is empty, and the next call
  of \<open>get_bybit_client\<close>, with any triple for which the client constructor returns,
  yields a wrapper built by that call and bound to that triple, which is not the session
  held before the removal.
\<close>

theorem remove_not_found_or_invalidate:
  assumes "reachable S"
  shows "(rows_for (db S) (lower v) = [] \<longrightarrow>
            remove_api_keys v S = (Inl (HTTPException 404), S))
       \<and> (rows_for (db S) (lower v) \<noteq> [] \<longrightarrow>
            fst (remove_api_keys v S) = Inr (lit ''success'')
            \<and> rows_for (db (snd (remove_api_keys v S))) (lower v) = []
            \<and> (\<forall>u. u \<noteq> lower v \<longrightarrow>
                 rows_for (db (snd (remove_api_keys v S))) u = rows_for (db S) u)
            \<and> bybit_client (svc (snd (remove_api_keys v S))) = None
            \<and> (\<forall>V k s t. http_init V k s t = None \<longrightarrow>
                 fst (get_bybit_client V k s t (svc (snd (remove_api_keys v S)))) =
                   Inr \<lparr>api_key = k, api_secret = s, testnet = t, wid = allocated (svc S)\<rparr>
                 \<and> bybit_client (snd (get_bybit_client V k s t (svc (snd (remove_api_keys v S))))) =
                   Some \<lparr>api_key = k, api_secret = s, testnet = t, wid = allocated (svc S)\<rparr>
                 \<and> (\<forall>c. bybit_client (svc S) = Some c \<longrightarrow> wid c \<noteq> allocated (svc S))))"
proof -
  have dinv: "db_inv (db S)" using assms by (rule reachable_db_inv)
  have sinv: "service_inv (svc S)" using assms by (rule reachable_service_inv)
  have fresh: "\<forall>c. bybit_client (svc S) = Some c \<longrightarrow> wid c \<noteq> allocated (svc S)"
    using sinv by (auto simp: service_inv_def)
  show ?thesis
  proof (cases "query_first (db S) (lower v)")
    case None
    then show ?thesis by (simp add: remove_absent query_first_None [symmetric])
  next
    case (Some row)
    have ne: "rows_for (db S) (lower v) \<noteq> []"
      using Some by (simp add: query_first_None [symmetric])
    have r: "remove_api_keys v S =
        (Inr (lit ''success''), \<lparr>db = db_delete (db S) row, svc = reset_bybit_client (svc S)\<rparr>)"
      using Some by (rule remove_present)
    have gone: "rows_for (db_delete (db S) row) (lower v) = []"
      using dinv Some by (rule rows_for_delete)
    have others: "\<forall>u. u \<noteq> lower v \<longrightarrow> rows_for (db_delete (db S) row) u = rows_for (db S) u"
      using dinv Some by (simp add: rows_for_delete_other)
    have none: "bybit_client (reset_bybit_client (svc S)) = None"
      by (simp add: reset_bybit_client_def)
    show ?thesis using ne gone others none fresh by (simp add: r get_after_reset)
  qed
qed


theorem remove_not_found_or_invalidate_witness:
  "reachable system_init
   \<and> rows_for (db system_init) (lower (lit ''Bybit'')) = []
   \<and> remove_api_keys (lit ''Bybit'') system_init = (Inl (HTTPException 404), system_init)
   \<and> reachable fake_stored
   \<and> rows_for (db fake_stored) (lower (lit ''BYBIT'')) \<noteq> []
   \<and> fst (remove_api_keys (lit ''BYBIT'') fake_stored) = Inr (lit ''success'')
   \<and> rows_for (db (snd (remove_api_keys (lit ''BYBIT'') fake_stored))) (lit ''bybit'') = []
   \<and> bybit_client (svc (snd (remove_api_keys (lit ''BYBIT'') fake_stored))) = None
   \<and> http_init fake_venue (lit ''key1'') (lit ''s3cret'') False = None
   \<and> fst (get_bybit_client fake_venue (lit ''key1'') (lit ''s3cret'') False
            (svc (snd (remove_api_keys (lit ''BYBIT'') fake_stored)))) =
        Inr \<lparr>api_key = lit ''key1'', api_secret = lit ''s3cret'', testnet = False, wid = 1\<rparr>
   \<and> bybit_client (svc fake_stored) =
        Some \<lparr>api_key = lit ''key1'', api_secret = lit ''s3cret'', testnet = False, wid = 0\<rparr>"
proof -
  have r0: "reachable system_init" by (rule reachable.by_start)
  have e0: "rows_for (db system_init) (lower (lit ''Bybit'')) = []"
    by (simp add: run_defs)
  have e1: "rows_for (db fake_stored) (lower (lit ''BYBIT'')) \<noteq> []"
    by (simp add: run_defs fake_defs)
  have l: "lower (lit ''BYBIT'') = lit ''bybit''" by (simp add: run_defs)
  have h: "http_init fake_venue (lit ''key1'') (lit ''s3cret'') False = None"
    by (simp add: fake_defs)
  have a: "allocated (svc fake_stored) = 1"
    and b: "bybit_client (svc fake_stored) =
        Some \<lparr>api_key = lit ''key1'', api_secret = lit ''s3cret'', testnet = False, wid = 0\<rparr>"
    by (simp_all add: fake_defs)
  note w0 = remove_not_found_or_invalidate[OF r0, of "lit ''Bybit''"]
  note w1 = remove_not_found_or_invalidate[OF fake_stored_reachable, of "lit ''BYBIT''"]
  from w0 e0 have c0: "remove_api_keys (lit ''Bybit'') system_init
      = (Inl (HTTPException 404), system_init)"
    by blast
  from w1 e1 l a h
  have c1: "fst (remove_api_keys (lit ''BYBIT'') fake_stored) = Inr (lit ''success'')"
    and c2: "rows_for (db (snd (remove_api_keys (lit ''BYBIT'') fake_stored))) (lit ''bybit'') = []"
    and c3: "bybit_client (svc (snd (remove_api_keys (lit ''BYBIT'') fake_stored))) = None"
    and c4: "fst (get_bybit_client fake_venue (lit ''key1'') (lit ''s3cret'') False
            (svc (snd (remove_api_keys (lit ''BYBIT'') fake_stored)))) =
        Inr \<lparr>api_key = lit ''key1'', api_secret = lit ''s3cret'', testnet = False, wid = 1\<rparr>"
    by simp_all
  from r0 e0 c0 fake_stored_reachable e1 c1 c2 c3 h c4 b show ?thesis by blast
qed

lemma add_api_keys_try_rejected:
  assumes "venue_rejects (the_venue E) req (svc S)"
  shows "\<exists>e. fst (add_api_keys_try E req S) = Inl e" and "db (snd (add_api_keys_try E req S)) = db S"
    and "req_api_key req \<noteq> [] \<Longrightarrow> req_api_secret req \<noteq> [] \<Longrightarrow>
         lower (req_exchange req) = lit ''bybit'' \<Longrightarrow>
         encrypt (manager E) (entropy_key E) (req_api_key req) = Inr ek \<Longrightarrow>
         encrypt (manager E) (entropy_secret E) (req_api_secret req) = Inr es \<Longrightarrow>
         fst (add_api_keys_try E req S) = Inl (HTTPException 401)"
proof -
  from assms have c: "\<exists>g. check_credentials (the_venue E) req (svc S) = (Inl (HTTPException 401), g)"
    by (auto simp: venue_rejects_def check_credentials_def split: prod.splits sum.splits)
  then show "\<exists>e. fst (add_api_keys_try E req S) = Inl e"
    by (auto simp: add_api_keys_try_def split: sum.splits)
  from c show "db (snd (add_api_keys_try E req S)) = db S"
    by (auto simp: add_api_keys_try_def split: sum.splits)
  from c show "req_api_key req \<noteq> [] \<Longrightarrow> req_api_secret req \<noteq> [] \<Longrightarrow>
         lower (req_exchange req) = lit ''bybit'' \<Longrightarrow>
         encrypt (manager E) (entropy_key E) (req_api_key req) = Inr ek \<Longrightarrow>
         encrypt (manager E) (entropy_secret E) (req_api_secret req) = Inr es \<Longrightarrow>
         fst (add_api_keys_try E req S) = Inl (HTTPException 401)"
    by (auto simp: add_api_keys_try_def)
qed

lemma as_http_is_http: "\<exists>code. as_http e = HTTPException code"
  by (cases e) simp_all

lemma failed_check_not_stored:
  assumes "venue_rejects (the_venue E) req (svc S)"
  shows "(\<exists>code. fst (add_api_keys E req S) = Inl (HTTPException code))
       \<and> db (snd (add_api_keys E req S)) = db S"
proof -
  from add_api_keys_try_rejected(1)[OF assms] obtain e S1
    where t: "add_api_keys_try E req S = (Inl e, S1)"
    by (cases "add_api_keys_try E req S") auto
  have a: "add_api_keys E req S = (Inl (as_http e), S1)"
    by (simp add: add_api_keys_def t)
  have 1: "\<exists>code. fst (add_api_keys E req S) = Inl (HTTPException code)"
    using as_http_is_http[of e] by (simp add: a)
  have 2: "db (snd (add_api_keys E req S)) = db S"
    using add_api_keys_try_rejected(2)[OF assms] by (simp add: a t)
  from 1 2 show ?thesis by blast
qed

lemma one_record_per_venue: "reachable S \<Longrightarrow> length (rows_for (db S) u) \<le> 1"
  by (rule rows_for_le1) (rule reachable_db_inv)

lemma db_commit_over_stored:
  "query_first d (exchange added) = Some old \<Longrightarrow> db_commit d (Some old) added = Inl IntegrityError"
  by (auto simp: db_commit_def db_add_def dest: query_first_Some)

lemma add_over_stored_record:
  assumes "query_first (db S) (lit ''bybit'') = Some old"
  shows "\<exists>code. fst (add_api_keys E req S) = Inl (HTTPException code)"
    and "db (snd (add_api_keys E req S)) = db S"
proof -
  have rk: "\<And>ek es. lower (req_exchange req) = lit ''bybit'' \<Longrightarrow>
      replace_keys E req ek es (db S) = Inl IntegrityError"
    using assms db_commit_over_stored[of "db S" "new_exchange_api E req _ _" old]
    by (simp add: replace_keys_def new_exchange_api_def)
  have t: "(\<exists>e. fst (add_api_keys_try E req S) = Inl e) \<and> db (snd (add_api_keys_try E req S)) = db S"
    using rk by (auto simp: add_api_keys_try_def split: sum.splits prod.splits)
  then obtain e S1 where t1: "add_api_keys_try E req S = (Inl e, S1)" and d: "db S1 = db S"
    by (cases "add_api_keys_try E req S") auto
  show "\<exists>code. fst (add_api_keys E req S) = Inl (HTTPException code)"
    using as_http_is_http[of e] by (simp add: add_api_keys_def t1)
  show "db (snd (add_api_keys E req S)) = db S"
    using d by (simp add: add_api_keys_def t1)
qed


text \<open>
  Claim C3.  The claim asks that a second successful add for a venue replace the record
  of the first.  The handler marks the stored row for deletion and adds the new one, but
  both are written only at the commit, the INSERT first, and the unique column refuses
  it: with a record stored by a first add, the second add ends in \<open>HTTPException(500)\<close>
  and the record of the first call stays as it was.
\<close>

theorem second_add_keeps_first_record:
  "add_api_keys fake_env fake_request system_init =
     (Inr \<lparr>add_status = lit ''success'', add_exchange = lit ''Bybit'', add_testnet = False,
           add_exchange_id = 1\<rparr>, fake_stored)
   \<and> rows_for (db fake_stored) (lit ''bybit'') = [fake_row]
   \<and> fst (add_api_keys (fake_env\<lparr>utcnow := 2000\<rparr>)
         (fake_request\<lparr>req_api_key := lit ''key2'', req_testnet := True\<rparr>) fake_stored)
       = Inl (HTTPException 500)
   \<and> rows_for (db (snd (add_api_keys (fake_env\<lparr>utcnow := 2000\<rparr>)
         (fake_request\<lparr>req_api_key := lit ''key2'', req_testnet := True\<rparr>) fake_stored)))
         (lit ''bybit'') = [fake_row]
   \<and> api_key_encrypted fake_row = lit ''aGLGFHJDB''
   \<and> encrypt (manager fake_env) (entropy_key fake_env) (lit ''key2'') = Inr (lit ''aGLGFHJDC'')"
proof -
  have 1: "rows_for (db fake_stored) (lit ''bybit'') = [fake_row]"
    by (simp add: run_defs fake_defs)
  have 2: "fst (add_api_keys (fake_env\<lparr>utcnow := 2000\<rparr>)
         (fake_request\<lparr>req_api_key := lit ''key2'', req_testnet := True\<rparr>) fake_stored)
       = Inl (HTTPException 500)"
    by (simp add: run_defs fake_defs)
  have 3: "rows_for (db (snd (add_api_keys (fake_env\<lparr>utcnow := 2000\<rparr>)
         (fake_request\<lparr>req_api_key := lit ''key2'', req_testnet := True\<rparr>) fake_stored)))
         (lit ''bybit'') = [fake_row]"
    by (simp add: run_defs fake_defs)
  have 4: "api_key_encrypted fake_row = lit ''aGLGFHJDB''" by (simp add: fake_defs)
  have 5: "encrypt (manager fake_env) (entropy_key fake_env) (lit ''key2'') = Inr (lit ''aGLGFHJDC'')"
    by (simp add: run_defs fake_defs)
  from fake_add_run 1 2 3 4 5 show ?thesis by blast
qed



section \<open>The session operations\<close>

lemma try_except_total: "(\<And>e. \<exists>v. h e = Inr v) \<Longrightarrow> \<exists>v. try_except m h = Inr v"
  by (cases m) (auto simp: try_except_def)

lemma get_account_info_returns: "\<exists>r. get_account_info V w = Inr r"
  unfolding get_account_info_def by (rule try_except_total) simp

lemma get_positions_returns: "\<exists>r. get_positions V w = Inr r"
  unfolding get_positions_def by (rule try_except_total) simp

lemma validate_credentials_returns: "\<exists>r. validate_credentials V w = Inr r"
  unfolding validate_credentials_def by (rule try_except_total) blast

lemma get_account_info_failed:
  "venue_call_failed (get_wallet_balance V (api_key w) (api_secret w) (testnet w)) \<Longrightarrow>
   get_account_info V w = Inr zero_account_info"
  by (auto simp: venue_call_failed_def get_account_info_def try_except_def bind_def
      split: sum.splits)

lemma get_positions_failed:
  "venue_call_failed (get_open_orders V (api_key w) (api_secret w) (testnet w)) \<Longrightarrow>
   get_positions V w = Inr (PList [])"
  by (auto simp: venue_call_failed_def get_positions_def try_except_def bind_def
      split: sum.splits)

text \<open>
  Claim C7.  \<open>get_account_info\<close> and the wrapper's \<open>get_positions\<close> always return a
  value, whatever the venue does: no exception passes them.  When the underlying venue
  call has failed (it raised, or what it returned is empty or does not carry the status
  code 0), \<open>get_account_info\<close> returns the record of four zeros and \<open>get_positions\<close>
  the empty list.
\<close>

theorem failure_sentinel:
  "(\<exists>r. get_account_info V w = Inr r)
   \<and> (\<exists>r. get_positions V w = Inr r)
   \<and> (venue_call_failed (get_wallet_balance V (api_key w) (api_secret w) (testnet w)) \<longrightarrow>
        get_account_info V w = Inr zero_account_info)
   \<and> (venue_call_failed (get_open_orders V (api_key w) (api_secret w) (testnet w)) \<longrightarrow>
        get_positions V w = Inr (PList []))"
  using get_account_info_returns get_positions_returns get_account_info_failed
    get_positions_failed by blast

theorem failure_sentinel_witness:
  "venue_call_failed (get_wallet_balance down_venue (lit ''key1'') (lit ''s3cret'') False)
   \<and> venue_call_failed (get_open_orders down_venue (lit ''key1'') (lit ''s3cret'') False)
   \<and> venue_call_failed (get_wallet_balance fake_venue (lit ''key1'') (lit ''wrong'') True)
   \<and> get_account_info down_venue fake_wrapper = Inr zero_account_info
   \<and> get_positions down_venue fake_wrapper = Inr (PList [])
   \<and> get_account_info fake_venue (fake_wrapper\<lparr>api_secret := lit ''wrong'', testnet := True\<rparr>)
       = Inr \<lparr>total_wallet_balance = PInt 0, total_equity = PInt 0,
              available_balance = PInt 0, total_unrealised_loss = PInt 0\<rparr>"
proof -
  have a: "venue_call_failed (get_wallet_balance down_venue (lit ''key1'') (lit ''s3cret'') False)"
    "venue_call_failed (get_open_orders down_venue (lit ''key1'') (lit ''s3cret'') False)"
    by (simp_all add: venue_call_failed_def down_venue_def)
  have b: "venue_call_failed (get_wallet_balance fake_venue (lit ''key1'') (lit ''wrong'') True)"
    by (simp add: venue_call_failed_def fake_venue_def fake_balance_def response_ok_def lit_def)
  from a b failure_sentinel[of down_venue fake_wrapper]
    failure_sentinel[of fake_venue "fake_wrapper\<lparr>api_secret := lit ''wrong'', testnet := True\<rparr>"]
  show ?thesis by (simp add: fake_wrapper_def zero_account_info_def)
qed


text \<open>
  The route of positions.py asks the venue for its positions and keeps the entries of
  positive size: none of the entries it answers with has size zero, and on the answer
  of the stand-in venue, one entry of size \<open>"0"\<close>, it answers with no entry.
\<close>

lemma format_positions_positive:
  "format_positions V items = Inr formatted \<Longrightarrow> \<forall>p \<in> set formatted. 0 < size_of p"
proof (induction items arbitrary: formatted)
  case Nil
  then show ?case by simp
next
  case (Cons pos rest)
  then show ?case
    by (auto simp: bind_def split: sum.splits if_splits)
qed

lemma route_positions_positive:
  "\<forall>p \<in> set (positions (fst (get_positions_route E S))). 0 < size_of p"
proof -
  have f: "\<And>V c a. fetch_positions V c = Inr a \<Longrightarrow> \<forall>p \<in> set (positions a). 0 < size_of p"
    by (auto simp: fetch_positions_def bind_def split: sum.splits if_splits
        dest: format_positions_positive)
  show ?thesis
    using f by (auto simp: get_positions_route_def positions_error_def
        split: option.splits sum.splits prod.splits)
qed

lemma route_drops_zero_size:
  "get_positions_route fake_env fake_stored =
     (\<lparr>positions_status = lit ''success'', positions = [], total = 0\<rparr>, fake_session)"
  by (simp add: get_positions_route_def fetch_positions_def get_float_def run_defs fake_defs)

text \<open>
  Claim C8.  The claim asks that the session's \<open>get_positions\<close> return the open
  positions without the entries of size zero.  The wrapper's method queries the open
  orders and returns the list as it came: on the answer of the stand-in venue, one
  entry of size \<open>"0"\<close>, it returns that entry, whose size converts to zero.
\<close>

theorem wrapper_get_positions_unfiltered:
  "get_positions fake_venue fake_wrapper =
     Inr (PList [PDict [(lit ''symbol'', PStr (lit ''BTCUSDT'')),
                        (lit ''size'', PStr (lit ''0''))]])
   \<and> bind (dict_get (PDict [(lit ''symbol'', PStr (lit ''BTCUSDT'')),
                              (lit ''size'', PStr (lit ''0''))]) (lit ''size'') (PInt 0))
        (py_float (float_of_str fake_venue) (float_of_int fake_venue)) = Inr 0"
  by (simp add: get_positions_def fake_venue_def fake_orders_def fake_wrapper_def
      response_ok_def try_except_def lit_def)


lemma decrypt_reraises:
  "str_encode tok = Inl e \<Longrightarrow> decrypt M tok = Inl e"
  "str_encode tok = Inr t \<Longrightarrow> f_decrypt (cipher M) t = Inl e \<Longrightarrow> decrypt M tok = Inl e"
  by (simp_all add: decrypt_def try_except_def)

lemma decrypt_accepted:
  "decrypt M tok = Inr p \<Longrightarrow>
   \<exists>t q. str_encode tok = Inr t \<and> f_decrypt (cipher M) t = Inr q \<and> bytes_decode q = Inr p"
  by (auto simp: decrypt_def try_except_def bind_def split: sum.splits)

lemma encrypt_produced:
  assumes "fernet_contract (cipher M)" and "encrypt M n s = Inr tok"
  shows "str_encode tok = Inr tok \<and> produced_under (cipher M) tok"
proof -
  from encrypt_token[OF assms] obtain b
    where b: "str_encode s = Inr b" and t: "tok = f_encrypt (cipher M) n b" and a: "ascii tok"
    by blast
  from b have "octets b" by (rule str_encode_octets)
  with t have "produced_under (cipher M) tok" by (auto simp: produced_under_def)
  moreover from a have "str_encode tok = Inr tok" by (rule ascii_encode)
  ultimately show ?thesis by simp
qed

lemma fake_parse_error: "fake_parse t = Inl e \<Longrightarrow> e = InvalidToken"
  by (induction t arbitrary: e rule: fake_parse.induct)
    (auto simp: bind_def split: if_splits sum.splits)

lemma fake_parse_inverse: "fake_parse t = Inr b \<Longrightarrow> octets b \<and> t = fake_tokenise b"
proof (induction t arbitrary: b rule: fake_parse.induct)
  case 1
  then show ?case by (simp add: octets_def)
next
  case (2 h)
  then show ?case by simp
next
  case (3 h l r)
  from "3.prems" obtain bs where r: "fake_parse r = Inr bs"
    and h: "65 \<le> h" "h < 81" and l: "65 \<le> l" "l < 81"
    and b: "b = ((h - 65) * 16 + (l - 65)) # bs"
    by (auto simp: bind_def split: if_splits sum.splits)
  from "3.IH"[OF _ r] h l have ih: "octets bs" "r = fake_tokenise bs" by simp_all
  have lo: "l - 65 < 16" using l by simp
  have hi: "h - 65 < 16" using h by simp
  have d: "((h - 65) * 16 + (l - 65)) div 16 = h - 65" using lo by simp
  have m: "((h - 65) * 16 + (l - 65)) mod 16 = l - 65" using lo by simp
  have small: "(h - 65) * 16 + (l - 65) < 256" using lo hi by simp
  show ?case unfolding b using ih d m small h l by (simp add: octets_def)
qed

lemma fake_fernet_integrity: "fernet_integrity (fake_fernet key)"
proof -
  have "f_decrypt (fake_fernet key) t = Inl InvalidToken" if np: "\<not> produced_under (fake_fernet key) t" for t
  proof (cases t)
    case Nil
    then show ?thesis by (simp add: fake_fernet_def)
  next
    case (Cons tag body)
    show ?thesis
    proof (cases "tag = 97 + key mod 26")
      case False
      with Cons show ?thesis by (simp add: fake_fernet_def)
    next
      case True
      show ?thesis
      proof (cases "fake_parse body")
        case (Inl e)
        then have "e = InvalidToken" by (rule fake_parse_error)
        with Inl Cons True show ?thesis by (simp add: fake_fernet_def)
      next
        case (Inr b)
        then have "octets b" "body = fake_tokenise b" using fake_parse_inverse by blast+
        with Cons True have "produced_under (fake_fernet key) t"
          by (auto simp: produced_under_def fake_fernet_def)
        with np show ?thesis by simp
      qed
    qed
  qed
  then show ?thesis by (simp add: fernet_integrity_def)
qed

lemma fake_library_separate: "keys_separate fake_library"
  by (auto simp: keys_separate_def produced_under_def fake_library_def fake_fernet_def)

text \<open>
  Claim C6.  Let the library keep its promise of integrity for the cipher of the
  current key.  Then \<open>decrypt\<close> raises and returns no plaintext for every token that is
  not one produced under the current key: the string that has no encoding, the string
  that is a token of no key at all (malformed), the token whose octets are not those of
  any token the key produced (it was altered and its integrity tag fails), and, when
  the library separates its keys, every token produced under a different key, be it
  given as octets or obtained from \<open>encrypt\<close> of a manager with the other key.  The
  exception is the cipher's own \<open>InvalidToken\<close>, or \<open>UnicodeEncodeError\<close> for the string
  without encoding; a plaintext comes back only for a token produced under the current
  key.
\<close>

theorem decrypt_rejects_foreign_tokens:
  assumes "fernet_integrity (L kb)"
  shows "(str_encode tok = Inl e \<longrightarrow> decrypt \<lparr>cipher = L kb\<rparr> tok = Inl e)
       \<and> (str_encode tok = Inr t \<and> (\<forall>k. \<not> produced_under (L k) t) \<longrightarrow>
            decrypt \<lparr>cipher = L kb\<rparr> tok = Inl InvalidToken)
       \<and> (str_encode tok = Inr t \<and> \<not> produced_under (L kb) t \<longrightarrow>
            decrypt \<lparr>cipher = L kb\<rparr> tok = Inl InvalidToken)
       \<and> (keys_separate L \<and> ka \<noteq> kb \<and> str_encode tok = Inr t \<and> produced_under (L ka) t \<longrightarrow>
            decrypt \<lparr>cipher = L kb\<rparr> tok = Inl InvalidToken)
       \<and> (keys_separate L \<and> ka \<noteq> kb \<and> fernet_contract (L ka)
            \<and> encrypt \<lparr>cipher = L ka\<rparr> n s = Inr tok \<longrightarrow>
            decrypt \<lparr>cipher = L kb\<rparr> tok = Inl InvalidToken)
       \<and> (decrypt \<lparr>cipher = L kb\<rparr> tok = Inr p \<longrightarrow>
            (\<exists>t. str_encode tok = Inr t \<and> produced_under (L kb) t))"
proof -
  let ?M = "\<lparr>cipher = L kb\<rparr>"
  have rej: "\<And>t. str_encode tok = Inr t \<Longrightarrow> \<not> produced_under (L kb) t \<Longrightarrow>
      decrypt ?M tok = Inl InvalidToken"
  proof -
    fix t assume t: "str_encode tok = Inr t" and np: "\<not> produced_under (L kb) t"
    from assms np have "f_decrypt (cipher ?M) t = Inl InvalidToken"
      by (simp add: fernet_integrity_def)
    with t show "decrypt ?M tok = Inl InvalidToken" by (rule decrypt_reraises(2))
  qed
  have 1: "str_encode tok = Inl e \<longrightarrow> decrypt ?M tok = Inl e"
    by (simp add: decrypt_reraises(1))
  have 2: "str_encode tok = Inr t \<and> (\<forall>k. \<not> produced_under (L k) t) \<longrightarrow>
            decrypt ?M tok = Inl InvalidToken"
    using rej by blast
  have 3: "str_encode tok = Inr t \<and> \<not> produced_under (L kb) t \<longrightarrow>
            decrypt ?M tok = Inl InvalidToken"
    using rej by blast
  have 4: "keys_separate L \<and> ka \<noteq> kb \<and> str_encode tok = Inr t \<and> produced_under (L ka) t \<longrightarrow>
            decrypt ?M tok = Inl InvalidToken"
  proof (intro impI, elim conjE)
    assume sep: "keys_separate L" and ne: "ka \<noteq> kb" and t: "str_encode tok = Inr t"
      and pa: "produced_under (L ka) t"
    from sep ne pa have "\<not> produced_under (L kb) t" unfolding keys_separate_def by blast
    with t show "decrypt ?M tok = Inl InvalidToken" by (rule rej)
  qed
  have 5: "keys_separate L \<and> ka \<noteq> kb \<and> fernet_contract (L ka)
            \<and> encrypt \<lparr>cipher = L ka\<rparr> n s = Inr tok \<longrightarrow>
            decrypt ?M tok = Inl InvalidToken"
  proof (intro impI, elim conjE)
    assume sep: "keys_separate L" and ne: "ka \<noteq> kb" and c: "fernet_contract (L ka)"
      and en: "encrypt \<lparr>cipher = L ka\<rparr> n s = Inr tok"
    from c have c': "fernet_contract (cipher \<lparr>cipher = L ka\<rparr>)" by simp
    from encrypt_produced[OF c' en] have t: "str_encode tok = Inr tok"
      and pa: "produced_under (L ka) tok"
      by simp_all
    from sep ne pa have "\<not> produced_under (L kb) tok" unfolding keys_separate_def by blast
    with t show "decrypt ?M tok = Inl InvalidToken" by (rule rej)
  qed
  have 6: "decrypt ?M tok = Inr p \<longrightarrow> (\<exists>t. str_encode tok = Inr t \<and> produced_under (L kb) t)"
  proof
    assume "decrypt ?M tok = Inr p"
    from decrypt_accepted[OF this] obtain t q
      where t: "str_encode tok = Inr t" and q: "f_decrypt (L kb) t = Inr q"
      by auto
    have "produced_under (L kb) t"
    proof (rule ccontr)
      assume "\<not> produced_under (L kb) t"
      with assms have "f_decrypt (L kb) t = Inl InvalidToken" by (simp add: fernet_integrity_def)
      with q show False by simp
    qed
    with t show "\<exists>t. str_encode tok = Inr t \<and> produced_under (L kb) t" by blast
  qed
  from 1 2 3 4 5 6 show ?thesis by blast
qed


lemma produced_decrypts:
  "fernet_contract F \<Longrightarrow> produced_under F t \<Longrightarrow> \<exists>b. f_decrypt F t = Inr b"
  by (auto simp: fernet_contract_def produced_under_def)

lemma fake_not_produced:
  "f_decrypt (fake_library k) t = Inl e \<Longrightarrow> \<not> produced_under (fake_library k) t"
  using produced_decrypts[of "fake_library k" t] fake_fernet_contract
  by (auto simp: fake_library_def)

theorem decrypt_rejects_foreign_tokens_witness:
  "fernet_integrity (fake_library True)
   \<and> keys_separate fake_library
   \<and> fernet_contract (fake_library False)
   \<and> str_encode [55296] = Inl UnicodeEncodeError
   \<and> decrypt \<lparr>cipher = fake_library True\<rparr> [55296] = Inl UnicodeEncodeError
   \<and> str_encode (lit ''zz'') = Inr (lit ''zz'')
   \<and> (\<forall>k. \<not> produced_under (fake_library k) (lit ''zz''))
   \<and> decrypt \<lparr>cipher = fake_library True\<rparr> (lit ''zz'') = Inl InvalidToken
   \<and> encrypt \<lparr>cipher = fake_library True\<rparr> 5 (lit ''k'') = Inr (lit ''bGL'')
   \<and> str_encode (lit ''bGZ'') = Inr (lit ''bGZ'')
   \<and> \<not> produced_under (fake_library True) (lit ''bGZ'')
   \<and> decrypt \<lparr>cipher = fake_library True\<rparr> (lit ''bGZ'') = Inl InvalidToken
   \<and> encrypt \<lparr>cipher = fake_library False\<rparr> 5 (lit ''k'') = Inr (lit ''aGL'')
   \<and> decrypt \<lparr>cipher = fake_library True\<rparr> (lit ''aGL'') = Inl InvalidToken
   \<and> decrypt \<lparr>cipher = fake_library True\<rparr> (lit ''bGL'') = Inr (lit ''k'')"
proof -
  have i: "fernet_integrity (fake_library True)"
    by (simp add: fake_library_def fake_fernet_integrity)
  have c: "fernet_contract (fake_library False)"
    by (simp add: fake_library_def fake_fernet_contract)
  note sep = fake_library_separate
  have e1: "str_encode [55296] = Inl UnicodeEncodeError" by (simp add: utf8_char_def)
  have e2: "str_encode (lit ''zz'') = Inr (lit ''zz'')" by (simp add: lit_def utf8_char_def)
  have e3: "str_encode (lit ''bGZ'') = Inr (lit ''bGZ'')" by (simp add: lit_def utf8_char_def)
  have n2: "\<forall>k. \<not> produced_under (fake_library k) (lit ''zz'')"
  proof
    fix k
    have "f_decrypt (fake_library k) (lit ''zz'') = Inl InvalidToken"
      by (simp add: fake_library_def fake_fernet_def lit_def)
    then show "\<not> produced_under (fake_library k) (lit ''zz'')" by (rule fake_not_produced)
  qed
  have n3: "\<not> produced_under (fake_library True) (lit ''bGZ'')"
  proof -
    have "f_decrypt (fake_library True) (lit ''bGZ'') = Inl InvalidToken"
      by (simp add: fake_library_def fake_fernet_def lit_def)
    then show ?thesis by (rule fake_not_produced)
  qed
  have t1: "encrypt \<lparr>cipher = fake_library True\<rparr> 5 (lit ''k'') = Inr (lit ''bGL'')"
    by (simp add: encrypt_def fake_library_def fake_fernet_def lit_def utf8_char_def)
  have t0: "encrypt \<lparr>cipher = fake_library False\<rparr> 5 (lit ''k'') = Inr (lit ''aGL'')"
    by (simp add: encrypt_def fake_library_def fake_fernet_def lit_def utf8_char_def)
  have ok: "decrypt \<lparr>cipher = fake_library True\<rparr> (lit ''bGL'') = Inr (lit ''k'')"
    by (simp add: decrypt_def try_except_def fake_library_def fake_fernet_def lit_def
        utf8_char_def)
  have ne: "False \<noteq> True" by simp
  note w1 = decrypt_rejects_foreign_tokens[where L = fake_library and kb = True, OF i, where tok = "[55296]"
      and e = UnicodeEncodeError]
  note w2 = decrypt_rejects_foreign_tokens[where L = fake_library and kb = True, OF i, where tok = "lit ''zz''" and t = "lit ''zz''"]
  note w3 = decrypt_rejects_foreign_tokens[where L = fake_library and kb = True, OF i, where tok = "lit ''bGZ''" and t = "lit ''bGZ''"]
  note w5 = decrypt_rejects_foreign_tokens[where L = fake_library and kb = True, OF i, where tok = "lit ''aGL''" and ka = False
      and n = 5 and s = "lit ''k''"]
  have a1: "decrypt \<lparr>cipher = fake_library True\<rparr> [55296] = Inl UnicodeEncodeError"
    using w1 e1 by blast
  have a2: "decrypt \<lparr>cipher = fake_library True\<rparr> (lit ''zz'') = Inl InvalidToken"
    using w2 e2 n2 by blast
  have a3: "decrypt \<lparr>cipher = fake_library True\<rparr> (lit ''bGZ'') = Inl InvalidToken"
    using w3 e3 n3 by blast
  have a5: "decrypt \<lparr>cipher = fake_library True\<rparr> (lit ''aGL'') = Inl InvalidToken"
    using w5 sep ne c t0 by blast
  from i sep c e1 a1 e2 n2 a2 t1 e3 n3 a3 t0 a5 ok show ?thesis by blast
qed

section \<open>The event log\<close>

lemma db_delete_events:
  "events (db_delete d row) = filter (\<lambda>e. exchange_id e \<noteq> row_id row) (events d)"
  by (simp add: db_delete_def)

lemma replace_keys_events:
  assumes "replace_keys E req ek es d = Inr (row, d')"
  shows "events d' =
     (case query_first d (lower (req_exchange req)) of
        None \<Rightarrow> events d
      | Some old \<Rightarrow> filter (\<lambda>e. exchange_id e \<noteq> row_id old) (events d))"
proof -
  from assms obtain d1
    where add: "db_add d (new_exchange_api E req ek es) = Inr (row, d1)"
      and d': "d' = (case query_first d (lower (req_exchange req)) of
                       Some old \<Rightarrow> db_delete d1 old | None \<Rightarrow> d1)"
    by (auto simp: replace_keys_def db_commit_def split: sum.splits)
  from add have "events d1 = events d" by (rule db_add_rows(3))
  then show ?thesis unfolding d' by (simp add: db_delete_events split: option.splits)
qed

lemma add_api_keys_events:
  "events (db (snd (add_api_keys E req S))) =
     (case fst (add_api_keys E req S) of
        Inl e \<Rightarrow> events (db S)
      | Inr r \<Rightarrow>
          (case query_first (db S) (lower (req_exchange req)) of
             None \<Rightarrow> events (db S)
           | Some old \<Rightarrow> filter (\<lambda>e. exchange_id e \<noteq> row_id old) (events (db S))))"
proof (cases "add_api_keys E req S")
  case (Pair res S')
  show ?thesis
  proof (cases res)
    case (Inl e)
    with Pair have "db S' = db S"
      by (auto simp: add_api_keys_def add_api_keys_try_def
          split: if_splits sum.splits prod.splits)
    with Pair Inl show ?thesis by simp
  next
    case (Inr r)
    with Pair add_api_keys_success[of E req S r S'] obtain ek es row
      where "replace_keys E req ek es (db S) = Inr (row, db S')"
      by auto
    then have "events (db S') =
       (case query_first (db S) (lower (req_exchange req)) of
          None \<Rightarrow> events (db S)
        | Some old \<Rightarrow> filter (\<lambda>e. exchange_id e \<noteq> row_id old) (events (db S)))"
      by (rule replace_keys_events)
    with Pair Inr show ?thesis by simp
  qed
qed

lemma remove_api_keys_events:
  "events (db (snd (remove_api_keys v S))) =
     (case query_first (db S) (lower v) of
        None \<Rightarrow> events (db S)
      | Some old \<Rightarrow> filter (\<lambda>e. exchange_id e \<noteq> row_id old) (events (db S)))"
  by (simp add: remove_api_keys_def remove_api_keys_try_def db_delete_events
      split: option.splits)

text \<open>
  Claim C9 asks for exactly one new event record per successful credential add or
  remove.  No handler constructs an \<open>Event\<close>: on the stand-in venue, a successful add
  from the empty store and a successful remove after it both leave the log without a
  new record.
\<close>

theorem add_appends_no_event:
  "fst (add_api_keys fake_env fake_request system_init) =
     Inr \<lparr>add_status = lit ''success'', add_exchange = lit ''Bybit'', add_testnet = False,
          add_exchange_id = 1\<rparr>
   \<and> length (events (db (snd (add_api_keys fake_env fake_request system_init))))
       \<noteq> length (events (db system_init)) + 1
   \<and> fst (remove_api_keys (lit ''bybit'') fake_stored) = Inr (lit ''success'')
   \<and> length (events (db (snd (remove_api_keys (lit ''bybit'') fake_stored))))
       \<noteq> length (events (db fake_stored)) + 1"
  by (simp add: fake_add_run) (simp add: run_defs fake_defs)


text \<open>
  Claim C9, amended.  A credential add or remove, successful or not, appends no event
  record.  The log afterwards is the log before, except that a successful add or remove
  which deletes a credential record takes with it, by the delete cascade, the events
  that point to that record; the log never grows.
\<close>

theorem credential_changes_append_no_event:
  "events (db (snd (add_api_keys E req S))) =
     (case fst (add_api_keys E req S) of
        Inl e \<Rightarrow> events (db S)
      | Inr r \<Rightarrow>
          (case query_first (db S) (lower (req_exchange req)) of
             None \<Rightarrow> events (db S)
           | Some old \<Rightarrow> filter (\<lambda>e. exchange_id e \<noteq> row_id old) (events (db S))))
   \<and> events (db (snd (remove_api_keys v S))) =
     (case query_first (db S) (lower v) of
        None \<Rightarrow> events (db S)
      | Some old \<Rightarrow> filter (\<lambda>e. exchange_id e \<noteq> row_id old) (events (db S)))
   \<and> length (events (db (snd (add_api_keys E req S)))) \<le> length (events (db S))
   \<and> length (events (db (snd (remove_api_keys v S)))) \<le> length (events (db S))"
proof -
  note a = add_api_keys_events[of E req S]
  note r = remove_api_keys_events[of v S]
  have "length (events (db (snd (add_api_keys E req S)))) \<le> length (events (db S))"
    unfolding a by (simp split: sum.splits option.splits)
  moreover have "length (events (db (snd (remove_api_keys v S)))) \<le> length (events (db S))"
    unfolding r by (simp split: option.splits)
  ultimately show ?thesis using a r by blast
qed

theorem credential_changes_append_no_event_witness:
  "events (db (snd (add_api_keys fake_env fake_request system_init))) = []
   \<and> events (db (snd (remove_api_keys (lit ''bybit'')
        (fake_stored\<lparr>db := (db fake_stored)\<lparr>events := [fake_event 1 1, fake_event 2 7]\<rparr>\<rparr>))))
       = [fake_event 2 7]"
proof -
  let ?S = "fake_stored\<lparr>db := (db fake_stored)\<lparr>events := [fake_event 1 1, fake_event 2 7]\<rparr>\<rparr>"
  have q: "query_first (db ?S) (lower (lit ''bybit'')) = Some fake_row"
    by (simp add: run_defs fake_defs)
  have ev: "events (db ?S) = [fake_event 1 1, fake_event 2 7]" by simp
  have f: "filter (\<lambda>e. exchange_id e \<noteq> row_id fake_row) [fake_event 1 1, fake_event 2 7]
      = [fake_event 2 7]"
    by (simp add: fake_defs)
  note w1 = credential_changes_append_no_event[of fake_env fake_request system_init
      "lit ''bybit''"]
  note w2 = credential_changes_append_no_event[of fake_env fake_request ?S "lit ''bybit''"]
  have "length (events (db (snd (add_api_keys fake_env fake_request system_init))))
      \<le> length (events (db system_init))"
    by (rule conjunct1[OF conjunct2[OF conjunct2[OF w1]]])
  then have 1: "events (db (snd (add_api_keys fake_env fake_request system_init))) = []"
    by (simp add: system_init_def database_init_def)
  have "events (db (snd (remove_api_keys (lit ''bybit'') ?S))) =
     (case query_first (db ?S) (lower (lit ''bybit'')) of
        None \<Rightarrow> events (db ?S)
      | Some old \<Rightarrow> filter (\<lambda>e. exchange_id e \<noteq> row_id old) (events (db ?S)))"
    by (rule conjunct1[OF conjunct2[OF w2]])
  then have 2: "events (db (snd (remove_api_keys (lit ''bybit'') ?S))) = [fake_event 2 7]"
    unfolding q ev by (simp only: option.case f)
  from 1 2 show ?thesis by blast
qed


section \<open>Testing credentials without saving\<close>

lemma get_bybit_client_cases:
  "(\<exists>c. get_bybit_client V k s t g = (Inr c, g) \<and> bybit_client g = Some c)
   \<or> get_bybit_client V k s t g = construct V k s t g"
  by (auto simp: get_bybit_client_def split: option.splits)

lemma get_bybit_client_raised:
  "get_bybit_client V k s t g = (Inl e, g1) \<Longrightarrow> g1 = g"
  by (auto simp: get_bybit_client_def construct_def split: option.splits if_splits sum.splits)

lemma get_bybit_client_allocated:
  "allocated g \<le> allocated (snd (get_bybit_client V k s t g))"
  by (auto simp: get_bybit_client_def construct_def split: option.splits sum.splits)

lemma test_api_keys_short:
  "req_api_key req = [] \<or> req_api_secret req = [] \<Longrightarrow> test_api_keys V req g = (test_error, g)"
  by (auto simp: test_api_keys_def)

lemma test_api_keys_raised:
  "get_bybit_client V (req_api_key req) (req_api_secret req) (req_testnet req) g = (Inl e, g1)
   \<Longrightarrow> test_api_keys V req g = (test_error, g)"
  using get_bybit_client_raised[of V "req_api_key req" "req_api_secret req" "req_testnet req" g e g1]
  by (auto simp: test_api_keys_def)

lemma test_api_keys_obtained:
  assumes "req_api_key req \<noteq> []" "req_api_secret req \<noteq> []"
    and "get_bybit_client V (req_api_key req) (req_api_secret req) (req_testnet req) g = (Inr c, g1)"
  shows "snd (test_api_keys V req g) = reset_bybit_client g1"
    and "is_valid (fst (test_api_keys V req g)) = (validate_credentials V c = Inr True)"
proof -
  obtain b where b: "validate_credentials V c = Inr b"
    using validate_credentials_returns by blast
  show "snd (test_api_keys V req g) = reset_bybit_client g1"
    using assms b by (simp add: test_api_keys_def)
  show "is_valid (fst (test_api_keys V req g)) = (validate_credentials V c = Inr True)"
    using assms b by (simp add: test_api_keys_def)
qed

text \<open>
  Claim C10 says that every test request leaves the session slot empty.  From the
  reachable state in which the slot holds the session of the stored credentials, a test
  request with an empty key, and one for which the client constructor raises, both
  return with the slot still holding that session.
\<close>

theorem test_keeps_session_on_early_exit:
  "reachable fake_stored
   \<and> bybit_client (svc fake_stored) = Some fake_wrapper
   \<and> bybit_client (snd (test_api_keys fake_venue (fake_request\<lparr>req_api_key := []\<rparr>)
        (svc fake_stored))) \<noteq> None
   \<and> bybit_client (snd (test_api_keys broken_venue (fake_request\<lparr>req_api_key := lit ''key2''\<rparr>)
        (svc fake_stored))) \<noteq> None"
  using fake_stored_reachable by (simp add: run_defs fake_defs)


text \<open>
  Claim C10, amended.  In every reachable state, a test request with a non-empty key
  and secret for which \<open>get_bybit_client\<close> returns a session leaves the slot empty,
  whether validation succeeds or fails, so that the next call of \<open>get_bybit_client\<close>
  for which the constructor returns builds a wrapper that is none of the earlier ones.
  A request with an empty key or secret, and one for which \<open>get_bybit_client\<close> raises,
  leave the session state as it was.
\<close>

theorem test_evicts_once_session_obtained:
  assumes "reachable S"
  shows "(req_api_key req \<noteq> [] \<and> req_api_secret req \<noteq> []
          \<and> (\<exists>c g1. get_bybit_client V (req_api_key req) (req_api_secret req) (req_testnet req)
                       (svc S) = (Inr c, g1))
          \<longrightarrow> bybit_client (snd (test_api_keys V req (svc S))) = None
            \<and> (\<forall>V' k s t. http_init V' k s t = None \<longrightarrow>
                 fst (get_bybit_client V' k s t (snd (test_api_keys V req (svc S)))) =
                   Inr \<lparr>api_key = k, api_secret = s, testnet = t,
                        wid = allocated (snd (test_api_keys V req (svc S)))\<rparr>
                 \<and> (\<forall>c. bybit_client (svc S) = Some c \<longrightarrow>
                       wid c \<noteq> allocated (snd (test_api_keys V req (svc S))))))
       \<and> (req_api_key req = [] \<or> req_api_secret req = [] \<longrightarrow>
            snd (test_api_keys V req (svc S)) = svc S)
       \<and> ((\<exists>e g1. get_bybit_client V (req_api_key req) (req_api_secret req) (req_testnet req)
                     (svc S) = (Inl e, g1))
            \<longrightarrow> snd (test_api_keys V req (svc S)) = svc S)"
proof -
  have inv: "service_inv (svc S)" using assms by (rule reachable_service_inv)
  have 1: "req_api_key req \<noteq> [] \<and> req_api_secret req \<noteq> []
          \<and> (\<exists>c g1. get_bybit_client V (req_api_key req) (req_api_secret req) (req_testnet req)
                       (svc S) = (Inr c, g1))
          \<longrightarrow> bybit_client (snd (test_api_keys V req (svc S))) = None
            \<and> (\<forall>V' k s t. http_init V' k s t = None \<longrightarrow>
                 fst (get_bybit_client V' k s t (snd (test_api_keys V req (svc S)))) =
                   Inr \<lparr>api_key = k, api_secret = s, testnet = t,
                        wid = allocated (snd (test_api_keys V req (svc S)))\<rparr>
                 \<and> (\<forall>c. bybit_client (svc S) = Some c \<longrightarrow>
                       wid c \<noteq> allocated (snd (test_api_keys V req (svc S)))))"
  proof (intro impI, elim conjE exE)
    fix c g1
    assume k: "req_api_key req \<noteq> []" and s: "req_api_secret req \<noteq> []"
      and g: "get_bybit_client V (req_api_key req) (req_api_secret req) (req_testnet req)
                (svc S) = (Inr c, g1)"
    have after: "snd (test_api_keys V req (svc S)) = reset_bybit_client g1"
      using k s g by (rule test_api_keys_obtained)
    have mono: "allocated (svc S) \<le> allocated g1"
      using get_bybit_client_allocated[of "svc S" V "req_api_key req" "req_api_secret req"
          "req_testnet req"] g
      by simp
    have old: "\<forall>c. bybit_client (svc S) = Some c \<longrightarrow> wid c \<noteq> allocated g1"
      using inv mono by (auto simp: service_inv_def)
    show "bybit_client (snd (test_api_keys V req (svc S))) = None
        \<and> (\<forall>V' k s t. http_init V' k s t = None \<longrightarrow>
             fst (get_bybit_client V' k s t (snd (test_api_keys V req (svc S)))) =
               Inr \<lparr>api_key = k, api_secret = s, testnet = t,
                    wid = allocated (snd (test_api_keys V req (svc S)))\<rparr>
             \<and> (\<forall>c. bybit_client (svc S) = Some c \<longrightarrow>
                   wid c \<noteq> allocated (snd (test_api_keys V req (svc S)))))"
      unfolding after using old by (simp add: get_after_reset) (simp add: reset_bybit_client_def)
  qed
  have 2: "req_api_key req = [] \<or> req_api_secret req = [] \<longrightarrow>
            snd (test_api_keys V req (svc S)) = svc S"
    by (auto simp: test_api_keys_short)
  have 3: "(\<exists>e g1. get_bybit_client V (req_api_key req) (req_api_secret req) (req_testnet req)
                     (svc S) = (Inl e, g1))
            \<longrightarrow> snd (test_api_keys V req (svc S)) = svc S"
    by (auto simp: test_api_keys_raised)
  from 1 2 3 show ?thesis by blast
qed


theorem test_evicts_once_session_obtained_witness:
  "reachable fake_stored
   \<and> get_bybit_client fake_venue (lit ''key2'') (lit ''wrong'') False (svc fake_stored) =
       (Inr \<lparr>api_key = lit ''key2'', api_secret = lit ''wrong'', testnet = False, wid = 1\<rparr>,
        \<lparr>bybit_client = Some \<lparr>api_key = lit ''key2'', api_secret = lit ''wrong'',
                               testnet = False, wid = 1\<rparr>,
         testnet_mode = False, allocated = 2\<rparr>)
   \<and> bybit_client (snd (test_api_keys fake_venue
        (fake_request\<lparr>req_api_key := lit ''key2'', req_api_secret := lit ''wrong''\<rparr>)
        (svc fake_stored))) = None
   \<and> fst (get_bybit_client fake_venue (lit ''key1'') (lit ''s3cret'') False
        (snd (test_api_keys fake_venue
           (fake_request\<lparr>req_api_key := lit ''key2'', req_api_secret := lit ''wrong''\<rparr>)
           (svc fake_stored)))) =
       Inr \<lparr>api_key = lit ''key1'', api_secret = lit ''s3cret'', testnet = False, wid = 2\<rparr>
   \<and> snd (test_api_keys fake_venue (fake_request\<lparr>req_api_key := []\<rparr>) (svc fake_stored))
       = svc fake_stored
   \<and> get_bybit_client broken_venue (lit ''key2'') (lit ''s3cret'') False (svc fake_stored) =
       (Inl (LibraryError 2), svc fake_stored)
   \<and> snd (test_api_keys broken_venue (fake_request\<lparr>req_api_key := lit ''key2''\<rparr>)
        (svc fake_stored)) = svc fake_stored"
proof -
  let ?r1 = "fake_request\<lparr>req_api_key := lit ''key2'', req_api_secret := lit ''wrong''\<rparr>"
  have g1: "get_bybit_client fake_venue (lit ''key2'') (lit ''wrong'') False (svc fake_stored) =
       (Inr \<lparr>api_key = lit ''key2'', api_secret = lit ''wrong'', testnet = False, wid = 1\<rparr>,
        \<lparr>bybit_client = Some \<lparr>api_key = lit ''key2'', api_secret = lit ''wrong'',
                               testnet = False, wid = 1\<rparr>,
         testnet_mode = False, allocated = 2\<rparr>)"
    by (simp add: run_defs fake_defs)
  have g3: "get_bybit_client broken_venue (lit ''key2'') (lit ''s3cret'') False (svc fake_stored) =
       (Inl (LibraryError 2), svc fake_stored)"
    by (simp add: run_defs fake_defs)
  have f1: "req_api_key ?r1 = lit ''key2''" "req_api_secret ?r1 = lit ''wrong''"
    "req_testnet ?r1 = False" "lit ''key2'' \<noteq> []" "lit ''wrong'' \<noteq> []"
    by (simp_all add: fake_defs lit_def)
  have f3: "req_api_key (fake_request\<lparr>req_api_key := lit ''key2''\<rparr>) = lit ''key2''"
    "req_api_secret (fake_request\<lparr>req_api_key := lit ''key2''\<rparr>) = lit ''s3cret''"
    "req_testnet (fake_request\<lparr>req_api_key := lit ''key2''\<rparr>) = False"
    by (simp_all add: fake_defs)
  have h: "http_init fake_venue (lit ''key1'') (lit ''s3cret'') False = None"
    by (simp add: fake_defs)
  note w1 = test_evicts_once_session_obtained[OF fake_stored_reachable, of ?r1 fake_venue]
  note w2 = test_evicts_once_session_obtained[OF fake_stored_reachable,
      of "fake_request\<lparr>req_api_key := []\<rparr>" fake_venue]
  note w3 = test_evicts_once_session_obtained[OF fake_stored_reachable,
      of "fake_request\<lparr>req_api_key := lit ''key2''\<rparr>" broken_venue]
  have a: "allocated (snd (test_api_keys fake_venue ?r1 (svc fake_stored))) = 2"
    by (simp add: run_defs fake_defs)
  from w1 g1 f1 h a have c1: "bybit_client (snd (test_api_keys fake_venue ?r1 (svc fake_stored))) = None"
    and c2: "fst (get_bybit_client fake_venue (lit ''key1'') (lit ''s3cret'') False
        (snd (test_api_keys fake_venue ?r1 (svc fake_stored)))) =
       Inr \<lparr>api_key = lit ''key1'', api_secret = lit ''s3cret'', testnet = False, wid = 2\<rparr>"
    by auto
  from w2 have c3: "snd (test_api_keys fake_venue (fake_request\<lparr>req_api_key := []\<rparr>)
      (svc fake_stored)) = svc fake_stored"
    by simp
  from w3 g3 f3 have c4: "snd (test_api_keys broken_venue
      (fake_request\<lparr>req_api_key := lit ''key2''\<rparr>) (svc fake_stored)) = svc fake_stored"
    by auto
  from fake_stored_reachable g1 c1 c2 c3 g3 c4 show ?thesis by blast
qed

end
